theory Spec2Isabelle
  imports Main "HOL-Library.Multiset" "HOL-Library.Sublist"
begin

section \<open>Strings (package strings of the Go library)\<close>

text \<open>
  A Go string is a sequence of bytes; it is modelled as a \<^typ>\<open>string\<close>, one
  \<^typ>\<open>char\<close> per byte, so that \<open>length\<close> is Go's \<open>len\<close>, \<open>take\<close> is \<open>s[:n]\<close> and
  \<open>drop\<close> is \<open>s[n:]\<close>.
\<close>

definition byte :: "char \<Rightarrow> nat" where
  "byte c = of_char c"

definition is_digit :: "char \<Rightarrow> bool" where
  "is_digit c = (48 \<le> byte c \<and> byte c \<le> 57)"

text \<open>
  Text is UTF-8. \<open>DecodeRune\<close> reads the first code point of a sequence of bytes as
  \<open>utf8.DecodeRuneInString\<close> and a \<open>range\<close> loop over a string do: the code point
  and the number of bytes it takes. Code points and the bytes of an encoding are
  integers here, as a \<open>rune\<close> is. A byte that does not start a well-formed encoding
  is read alone, as \<open>RuneError\<close> (U+FFFD).
\<close>

definition RuneError :: int where
  "RuneError = 65533"

definition continuation :: "int \<Rightarrow> bool" where
  "continuation b = (128 \<le> b \<and> b \<le> 191)"

text \<open>The second byte that the first byte of a three or four byte encoding accepts.\<close>

definition accept :: "int \<Rightarrow> int \<Rightarrow> bool" where
  "accept b0 b1 =
     (if b0 = 224 then 160 \<le> b1 \<and> b1 \<le> 191
      else if b0 = 237 then 128 \<le> b1 \<and> b1 \<le> 159
      else if b0 = 240 then 144 \<le> b1 \<and> b1 \<le> 191
      else if b0 = 244 then 128 \<le> b1 \<and> b1 \<le> 143
      else continuation b1)"

fun DecodeRune :: "int list \<Rightarrow> int \<times> nat" where
  "DecodeRune [] = (RuneError, 0)"
| "DecodeRune (b0 # bs) =
     (if b0 < 128 then (b0, 1)
      else if 194 \<le> b0 \<and> b0 \<le> 223 then
        (if 1 \<le> length bs \<and> continuation (bs ! 0)
         then ((b0 - 192) * 64 + (bs ! 0 - 128), 2)
         else (RuneError, 1))
      else if 224 \<le> b0 \<and> b0 \<le> 239 then
        (if 2 \<le> length bs \<and> accept b0 (bs ! 0) \<and> continuation (bs ! 1)
         then ((b0 - 224) * 4096 + (bs ! 0 - 128) * 64 + (bs ! 1 - 128), 3)
         else (RuneError, 1))
      else if 240 \<le> b0 \<and> b0 \<le> 244 then
        (if 3 \<le> length bs \<and> accept b0 (bs ! 0) \<and> continuation (bs ! 1)
            \<and> continuation (bs ! 2)
         then ((b0 - 240) * 262144 + (bs ! 0 - 128) * 4096 + (bs ! 1 - 128) * 64
               + (bs ! 2 - 128), 4)
         else (RuneError, 1))
      else (RuneError, 1))"

text \<open>The code points of a string, in the order of a \<open>range\<close> loop.\<close>

function runes :: "int list \<Rightarrow> int list" where
  "runes bs =
     (if bs = [] then []
      else fst (DecodeRune bs) # runes (drop (snd (DecodeRune bs)) bs))"
  by pat_completeness auto
termination
proof (relation "measure length")
  show "wf (measure length)" by simp
  show "(drop (snd (DecodeRune bs)) bs, bs) \<in> measure length" if "bs \<noteq> []" for bs
  proof -
    from that obtain b0 r where bs: "bs = b0 # r" by (cases bs) auto
    have "0 < snd (DecodeRune (b0 # r))" by simp
    with bs show ?thesis by simp
  qed
qed

declare runes.simps [simp del]

text \<open>
  \<open>EncodeRune\<close>: the UTF-8 encoding that \<open>WriteRune\<close> appends; a surrogate, a
  negative value or a value beyond U+10FFFF is written as U+FFFD.
\<close>

definition EncodeRune :: "int \<Rightarrow> int list" where
  "EncodeRune r =
     (if r < 0 then [239, 191, 189]
      else if r < 128 then [r]
      else if r < 2048 then [192 + r div 64, 128 + r mod 64]
      else if (55296 \<le> r \<and> r \<le> 57343) \<or> 1114111 < r then [239, 191, 189]
      else if r < 65536 then [224 + r div 4096, 128 + (r div 64) mod 64, 128 + r mod 64]
      else [240 + r div 262144, 128 + (r div 4096) mod 64, 128 + (r div 64) mod 64,
            128 + r mod 64])"

text \<open>
  \<open>strings.Map(mapping, s)\<close>: every code point of the string is replaced by its
  image and written back in UTF-8; a code point with a negative image is dropped.
\<close>

definition Map :: "(int \<Rightarrow> int) \<Rightarrow> string \<Rightarrow> string" where
  "Map mapping s =
     map char_of
       (concat (map (\<lambda>r. if mapping r < 0 then [] else EncodeRune (mapping r))
                  (runes (map of_char s))))"

text \<open>
  \<open>unicode.ToUpper\<close> and \<open>unicode.ToLower\<close>. On ASCII they shift the letters. The
  case tables of package \<open>unicode\<close> for the other code points are not spelled out
  here: they are the parameter \<open>table\<close>.
\<close>

definition unicode_ToUpper :: "(int \<Rightarrow> int) \<Rightarrow> int \<Rightarrow> int" where
  "unicode_ToUpper table r =
     (if r \<le> 127 then (if 97 \<le> r \<and> r \<le> 122 then r - 32 else r) else table r)"

definition unicode_ToLower :: "(int \<Rightarrow> int) \<Rightarrow> int \<Rightarrow> int" where
  "unicode_ToLower table r =
     (if r \<le> 127 then (if 65 \<le> r \<and> r \<le> 90 then r + 32 else r) else table r)"

text \<open>
  \<open>strings.ToUpper\<close> and \<open>strings.ToLower\<close>: a string of ASCII bytes only has its
  letters shifted byte by byte (\<open>c -= 'a' - 'A'\<close>); any other string goes through
  \<open>Map\<close> with the case mapping of package \<open>unicode\<close>.
\<close>

definition is_ascii :: "char \<Rightarrow> bool" where
  "is_ascii c = (byte c < 128)"

definition upper_byte :: "char \<Rightarrow> char" where
  "upper_byte c = (if 97 \<le> byte c \<and> byte c \<le> 122 then char_of (byte c - 32) else c)"

definition lower_byte :: "char \<Rightarrow> char" where
  "lower_byte c = (if 65 \<le> byte c \<and> byte c \<le> 90 then char_of (byte c + 32) else c)"

definition ToUpper :: "(int \<Rightarrow> int) \<Rightarrow> string \<Rightarrow> string" where
  "ToUpper table s =
     (if list_all is_ascii s then map upper_byte s else Map (unicode_ToUpper table) s)"

definition ToLower :: "(int \<Rightarrow> int) \<Rightarrow> string \<Rightarrow> string" where
  "ToLower table s =
     (if list_all is_ascii s then map lower_byte s else Map (unicode_ToLower table) s)"

text \<open>\<open>strings.HasPrefix\<close>: \<open>len(s) >= len(prefix) && s[:len(prefix)] == prefix\<close>.\<close>

definition HasPrefix :: "string \<Rightarrow> string \<Rightarrow> bool" where
  "HasPrefix s p = (length p \<le> length s \<and> take (length p) s = p)"

text \<open>\<open>strings.Contains\<close>: the substring occurs at some position of \<open>s\<close>.\<close>

fun Contains :: "string \<Rightarrow> string \<Rightarrow> bool" where
  "Contains [] sub = (sub = [])"
| "Contains (c # cs) sub = (HasPrefix (c # cs) sub \<or> Contains cs sub)"

text \<open>
  \<open>strings.TrimSpace\<close> removes leading and trailing white space as \<open>unicode.IsSpace\<close>
  defines it: the six ASCII characters tab, line feed, vertical tab, form feed, carriage
  return and space, and the UTF-8 encodings of U+0085, U+00A0, U+1680, U+2000 to U+200A,
  U+2028, U+2029, U+202F, U+205F and U+3000.
\<close>

definition space_runes :: "nat list list" where
  "space_runes =
     [[9], [10], [11], [12], [13], [32],
      [194, 133], [194, 160], [225, 154, 128],
      [226, 128, 128], [226, 128, 129], [226, 128, 130], [226, 128, 131],
      [226, 128, 132], [226, 128, 133], [226, 128, 134], [226, 128, 135],
      [226, 128, 136], [226, 128, 137], [226, 128, 138],
      [226, 128, 168], [226, 128, 169], [226, 128, 175],
      [226, 129, 159], [227, 128, 128]]"

definition leading_space :: "string \<Rightarrow> nat" where
  "leading_space s =
     (case find (\<lambda>r. take (length r) (map byte s) = r) space_runes of
        None \<Rightarrow> 0 | Some r \<Rightarrow> length r)"

function TrimLeft :: "string \<Rightarrow> string" where
  "TrimLeft s = (if leading_space s = 0 then s else TrimLeft (drop (leading_space s) s))"
  by pat_completeness auto
termination
proof (relation "measure length")
  show "wf (measure length)" by simp
  show "(drop (leading_space s) s, s) \<in> measure length" if "leading_space s \<noteq> 0" for s
  proof -
    from that obtain r
      where r: "find (\<lambda>r. take (length r) (map byte s) = r) space_runes = Some r"
        and l: "leading_space s = length r"
      by (auto simp: leading_space_def split: option.splits)
    from r have "r \<in> set space_runes" and t: "take (length r) (map byte s) = r"
      by (auto simp: find_Some_iff)
    then have "r \<noteq> []" by (auto simp: space_runes_def)
    with t have "s \<noteq> []" by auto
    with \<open>r \<noteq> []\<close> l show ?thesis by simp
  qed
qed

declare TrimLeft.simps [simp del]

definition trailing_space :: "string \<Rightarrow> nat" where
  "trailing_space s =
     (case find (\<lambda>r. length r \<le> length s \<and> drop (length s - length r) (map byte s) = r)
             space_runes of
        None \<Rightarrow> 0 | Some r \<Rightarrow> length r)"

function TrimRight :: "string \<Rightarrow> string" where
  "TrimRight s =
     (if trailing_space s = 0 then s else TrimRight (take (length s - trailing_space s) s))"
  by pat_completeness auto
termination
proof (relation "measure length")
  show "wf (measure length)" by simp
  show "(take (length s - trailing_space s) s, s) \<in> measure length"
    if "trailing_space s \<noteq> 0" for s
  proof -
    from that obtain r
      where r: "find (\<lambda>r. length r \<le> length s
                            \<and> drop (length s - length r) (map byte s) = r) space_runes = Some r"
        and l: "trailing_space s = length r"
      by (auto simp: trailing_space_def split: option.splits)
    from r have "r \<in> set space_runes" and t: "length r \<le> length s"
      by (auto simp: find_Some_iff)
    then have "r \<noteq> []" by (auto simp: space_runes_def)
    with t l show ?thesis by (cases s) auto
  qed
qed

declare TrimRight.simps [simp del]

definition TrimSpace :: "string \<Rightarrow> string" where
  "TrimSpace s = TrimRight (TrimLeft s)"

section \<open>Time (package time of the Go library)\<close>

text \<open>
  A \<open>time.Time\<close> is an instant with a location. It is modelled by the calendar
  fields its accessors return (\<open>Year()\<close>, \<open>Month()\<close>, ...) together with the offset of
  its location east of UTC, in seconds. All times of this program come from
  \<open>time.Parse\<close>, which gives UTC or a fixed offset, so the offset is a constant of the
  value. The zero \<open>Time\<close> is January 1, year 1, 00:00:00 UTC.
\<close>

record Time =
  Year :: int
  Month :: int
  Day :: int
  Hour :: int
  Minute :: int
  Second :: int
  Nanosecond :: int
  Offset :: int

definition zero_Time :: Time where
  "zero_Time = \<lparr>Year = 1, Month = 1, Day = 1, Hour = 0, Minute = 0, Second = 0,
                 Nanosecond = 0, Offset = 0\<rparr>"

definition isLeap :: "int \<Rightarrow> bool" where
  "isLeap y = (y mod 4 = 0 \<and> (y mod 100 \<noteq> 0 \<or> y mod 400 = 0))"

definition daysIn :: "int \<Rightarrow> int \<Rightarrow> int" where
  "daysIn m y =
     (if m = 2 then (if isLeap y then 29 else 28)
      else if m = 4 \<or> m = 6 \<or> m = 9 \<or> m = 11 then 30 else 31)"

text \<open>Days from January 1 of year 1 to the given day (proleptic Gregorian calendar).\<close>

definition days_before_year :: "int \<Rightarrow> int" where
  "days_before_year y =
     365 * (y - 1) + (y - 1) div 4 - (y - 1) div 100 + (y - 1) div 400"

definition days_before_month :: "int \<Rightarrow> int \<Rightarrow> int" where
  "days_before_month m y = sum_list (map (\<lambda>k. daysIn k y) [1..m - 1])"

text \<open>
  The instant of a time: \<open>sec\<close> counts the seconds since the zero time, as the
  library's internal \<open>t.sec()\<close> does up to its choice of epoch.
\<close>

definition sec :: "Time \<Rightarrow> int" where
  "sec t =
     (days_before_year (Year t) + days_before_month (Month t) (Year t) + (Day t - 1)) * 86400
     + Hour t * 3600 + Minute t * 60 + Second t - Offset t"

definition IsZero :: "Time \<Rightarrow> bool" where
  "IsZero t = (sec t = 0 \<and> Nanosecond t = 0)"

definition Before :: "Time \<Rightarrow> Time \<Rightarrow> bool" where
  "Before t u = (sec t < sec u \<or> (sec t = sec u \<and> Nanosecond t < Nanosecond u))"

definition After :: "Time \<Rightarrow> Time \<Rightarrow> bool" where
  "After t u = (sec t > sec u \<or> (sec t = sec u \<and> Nanosecond t > Nanosecond u))"

text \<open>
  \<open>time.Date\<close> normalises its arguments: months overflow into the year, the clock
  fields into each other and into the day, and a day outside the month moves into the
  neighbouring months (October 32 is November 1).
\<close>

function norm_day :: "int \<Rightarrow> int \<Rightarrow> int \<Rightarrow> int \<times> int \<times> int" where
  "norm_day y m d =
     (if d > daysIn m y then
        (if m = 12 then norm_day (y + 1) 1 (d - daysIn m y)
         else norm_day y (m + 1) (d - daysIn m y))
      else if d < 1 then
        (if m = 1 then norm_day (y - 1) 12 (d + daysIn 12 (y - 1))
         else norm_day y (m - 1) (d + daysIn (m - 1) y))
      else (y, m, d))"
  by pat_completeness auto
termination
proof (relation "measure (\<lambda>(y, m, d). if d < 1 then nat (1 - d) * 32 + 32 else nat d)")
  have b: "28 \<le> daysIn m y \<and> daysIn m y \<le> 31" for m y
    by (simp add: daysIn_def)
  show "wf (measure (\<lambda>(y, m, d). if d < 1 then nat (1 - d) * 32 + 32 else nat d))"
    by simp
  show "((y + 1, 1, d - daysIn m y), y, m, d)
          \<in> measure (\<lambda>(y, m, d). if d < 1 then nat (1 - d) * 32 + 32 else nat d)"
    if "daysIn m y < d" for y m d :: int
    using that b [of m y] by simp
  show "((y, m + 1, d - daysIn m y), y, m, d)
          \<in> measure (\<lambda>(y, m, d). if d < 1 then nat (1 - d) * 32 + 32 else nat d)"
    if "daysIn m y < d" for y m d :: int
    using that b [of m y] by simp
  show "((y - 1, 12, d + daysIn 12 (y - 1)), y, m, d)
          \<in> measure (\<lambda>(y, m, d). if d < 1 then nat (1 - d) * 32 + 32 else nat d)"
    if "d < 1" for y m d :: int
    using that b [of 12 "y - 1"] by (simp add: nat_diff_distrib) linarith
  show "((y, m - 1, d + daysIn (m - 1) y), y, m, d)
          \<in> measure (\<lambda>(y, m, d). if d < 1 then nat (1 - d) * 32 + 32 else nat d)"
    if "d < 1" for y m d :: int
    using that b [of "m - 1" y] by (simp add: nat_diff_distrib) linarith
qed

declare norm_day.simps [simp del]

definition Date :: "int \<Rightarrow> int \<Rightarrow> int \<Rightarrow> int \<Rightarrow> int \<Rightarrow> int \<Rightarrow> int \<Rightarrow> int \<Rightarrow> Time" where
  "Date y mo d h mi s ns off =
     (let y1 = y + (mo - 1) div 12; m1 = (mo - 1) mod 12 + 1;
          s1 = s + ns div 1000000000; ns1 = ns mod 1000000000;
          mi1 = mi + s1 div 60; s2 = s1 mod 60;
          h1 = h + mi1 div 60; mi2 = mi1 mod 60;
          d1 = d + h1 div 24; h2 = h1 mod 24
      in case norm_day y1 m1 d1 of
           (y2, m2, d2) \<Rightarrow>
             \<lparr>Year = y2, Month = m2, Day = d2, Hour = h2, Minute = mi2, Second = s2,
              Nanosecond = ns1, Offset = off\<rparr>)"

text \<open>\<open>t.AddDate(years, months, days)\<close> is \<open>Date\<close> on the shifted calendar fields.\<close>

definition AddDate :: "Time \<Rightarrow> int \<Rightarrow> int \<Rightarrow> int \<Rightarrow> Time" where
  "AddDate t years months days =
     Date (Year t + years) (Month t + months) (Day t + days)
          (Hour t) (Minute t) (Second t) (Nanosecond t) (Offset t)"

subsection \<open>Parsing a time against a layout\<close>

text \<open>
  \<open>time.Parse(layout, value)\<close> cuts the layout into literal text and standard
  elements (\<open>nextStdChunk\<close>) and reads the value element by element. The elements
  modelled are those of the five layouts of this program:
  \<open>2006\<close>, \<open>01\<close>, \<open>02\<close>, \<open>2\<close>, \<open>Jan\<close>, \<open>15\<close>, \<open>04\<close>, \<open>05\<close>, \<open>Z07:00\<close> and \<open>-0700\<close>;
  any other byte of a layout is literal text.
\<close>

datatype std =
  stdLongYear | stdZeroMonth | stdZeroDay | stdDay | stdMonth | stdHour
  | stdZeroMinute | stdZeroSecond | stdISO8601ColonTZ | stdNumTZ

datatype chunk = Lit string | Std std

definition std_table :: "(string \<times> std) list" where
  "std_table =
     [(''Jan'', stdMonth), (''01'', stdZeroMonth), (''02'', stdZeroDay),
      (''04'', stdZeroMinute), (''05'', stdZeroSecond), (''15'', stdHour),
      (''2006'', stdLongYear), (''2'', stdDay),
      (''-0700'', stdNumTZ), (''Z07:00'', stdISO8601ColonTZ)]"

definition std_at :: "string \<Rightarrow> (string \<times> std) option" where
  "std_at layout = find (\<lambda>(w, sd). HasPrefix layout w) std_table"

text \<open>
  The chunks of a layout, the literal text between two elements kept in one piece.
  An element is at least one byte long, \<open>c\<close> being its first.
\<close>

fun chunks :: "string \<Rightarrow> chunk list" where
  "chunks [] = []"
| "chunks (c # cs) =
     (case std_at (c # cs) of
        Some (w, sd) \<Rightarrow> Std sd # chunks (drop (length w - 1) cs)
      | None \<Rightarrow>
          (case chunks cs of
             Lit p # r \<Rightarrow> Lit (c # p) # r
           | r \<Rightarrow> Lit [c] # r))"

definition isDigit :: "string \<Rightarrow> nat \<Rightarrow> bool" where
  "isDigit s i = (i < length s \<and> is_digit (s ! i))"

definition digit :: "char \<Rightarrow> int" where
  "digit c = int (byte c) - 48"

text \<open>\<open>getnum\<close>: one or two digits; exactly two when \<open>fixed\<close>.\<close>

definition getnum :: "string \<Rightarrow> bool \<Rightarrow> (int \<times> string) option" where
  "getnum s fixed =
     (if \<not> isDigit s 0 then None
      else if \<not> isDigit s 1 then
        (if fixed then None else Some (digit (s ! 0), drop 1 s))
      else Some (digit (s ! 0) * 10 + digit (s ! 1), drop 2 s))"

text \<open>The value of a string of decimal digits (\<open>leadingInt\<close> on digits only).\<close>

definition digits_value :: "string \<Rightarrow> int" where
  "digits_value s = foldl (\<lambda>n c. n * 10 + digit c) 0 s"

definition all_digits :: "string \<Rightarrow> bool" where
  "all_digits s = list_all is_digit s"

text \<open>
  \<open>skip\<close> reads the literal text of the layout from the value. A space of the
  layout stands for any number of spaces of the value.
\<close>

definition cutspace :: "string \<Rightarrow> string" where
  "cutspace s = dropWhile (\<lambda>c. c = CHR '' '') s"

function skip :: "string \<Rightarrow> string \<Rightarrow> string option" where
  "skip v [] = Some v"
| "skip v (p # ps) =
     (if p = CHR '' '' then
        (if v \<noteq> [] \<and> hd v \<noteq> CHR '' '' then None
         else skip (cutspace v) (cutspace (p # ps)))
      else if v = [] \<or> hd v \<noteq> p then None
      else skip (tl v) ps)"
  by pat_completeness auto
termination
  by (relation "measure (\<lambda>(v, p). length p)")
     (auto simp: cutspace_def intro: le_imp_less_Suc length_dropWhile_le)

text \<open>\<open>match\<close> compares two strings of one length, ignoring the case of letters.\<close>

definition fold_byte :: "char \<Rightarrow> nat" where
  "fold_byte c = (if (byte c div 32) mod 2 = 0 then byte c + 32 else byte c)"

definition match_char :: "char \<Rightarrow> char \<Rightarrow> bool" where
  "match_char c1 c2 =
     (c1 = c2 \<or> (fold_byte c1 = fold_byte c2 \<and> 97 \<le> fold_byte c1 \<and> fold_byte c1 \<le> 122))"

definition match :: "string \<Rightarrow> string \<Rightarrow> bool" where
  "match s1 s2 = list_all2 match_char s1 s2"

definition shortMonthNames :: "string list" where
  "shortMonthNames =
     [''Jan'', ''Feb'', ''Mar'', ''Apr'', ''May'', ''Jun'',
      ''Jul'', ''Aug'', ''Sep'', ''Oct'', ''Nov'', ''Dec'']"

text \<open>\<open>lookup\<close>: the index of the first name the value starts with, and the rest.\<close>

fun lookup :: "string list \<Rightarrow> string \<Rightarrow> nat \<Rightarrow> (int \<times> string) option" where
  "lookup [] val i = None"
| "lookup (v # tab) val i =
     (if length v \<le> length val \<and> match (take (length v) val) v
      then Some (int i, drop (length v) val)
      else lookup tab val (Suc i))"

definition commaOrPeriod :: "char \<Rightarrow> bool" where
  "commaOrPeriod c = (c = CHR ''.'' \<or> c = CHR '','')"

text \<open>
  \<open>parseNanoseconds(value, nbytes)\<close>: the first nine digits after the separator,
  scaled to nanoseconds.
\<close>

definition parseNanoseconds :: "string \<Rightarrow> nat \<Rightarrow> int" where
  "parseNanoseconds v nbytes =
     (let n = min nbytes 10
      in digits_value (take (n - 1) (drop 1 v)) * 10 ^ (10 - n))"

text \<open>
  The fields \<open>Parse\<close> collects. \<open>p_zone\<close> is the offset read from the value:
  \<open>None\<close> while no zone was read, \<open>Some 0\<close> for \<open>Z\<close>.
\<close>

record pstate =
  p_year :: int
  p_month :: int
  p_day :: int
  p_hour :: int
  p_min :: int
  p_sec :: int
  p_nsec :: int
  p_zone :: "int option"

definition pstate0 :: pstate where
  "pstate0 = \<lparr>p_year = 0, p_month = -1, p_day = -1, p_hour = 0, p_min = 0, p_sec = 0,
               p_nsec = 0, p_zone = None\<rparr>"

text \<open>A numeric zone \<open>sign hh mm\<close>, with the hours and minutes already cut out.\<close>

definition zone_offset :: "char \<Rightarrow> string \<Rightarrow> string \<Rightarrow> int option" where
  "zone_offset sign hh mm =
     (case getnum hh True of
        None \<Rightarrow> None
      | Some (hr, _) \<Rightarrow>
          (case getnum mm True of
             None \<Rightarrow> None
           | Some (m, _) \<Rightarrow>
               if hr > 24 \<or> m > 60 then None
               else if sign = CHR ''+'' then Some ((hr * 60 + m) * 60)
               else if sign = CHR ''-'' then Some (- ((hr * 60 + m) * 60))
               else None))"

text \<open>One standard element read from the value: the new fields and the rest.\<close>

fun parse_std :: "std \<Rightarrow> pstate \<Rightarrow> string \<Rightarrow> (pstate \<times> string) option" where
  "parse_std stdLongYear st v =
     (if length v < 4 \<or> \<not> isDigit v 0 then None
      else if \<not> all_digits (take 4 v) then None
      else Some (st\<lparr>p_year := digits_value (take 4 v)\<rparr>, drop 4 v))"
| "parse_std stdZeroMonth st v =
     (case getnum v True of
        None \<Rightarrow> None
      | Some (n, r) \<Rightarrow> if n \<le> 0 \<or> 12 < n then None else Some (st\<lparr>p_month := n\<rparr>, r))"
| "parse_std stdMonth st v =
     (case lookup shortMonthNames v 0 of
        None \<Rightarrow> None
      | Some (i, r) \<Rightarrow> Some (st\<lparr>p_month := i + 1\<rparr>, r))"
| "parse_std stdZeroDay st v =
     (case getnum v True of
        None \<Rightarrow> None
      | Some (n, r) \<Rightarrow> Some (st\<lparr>p_day := n\<rparr>, r))"
| "parse_std stdDay st v =
     (case getnum v False of
        None \<Rightarrow> None
      | Some (n, r) \<Rightarrow> Some (st\<lparr>p_day := n\<rparr>, r))"
| "parse_std stdHour st v =
     (case getnum v False of
        None \<Rightarrow> None
      | Some (n, r) \<Rightarrow> if n < 0 \<or> 24 \<le> n then None else Some (st\<lparr>p_hour := n\<rparr>, r))"
| "parse_std stdZeroMinute st v =
     (case getnum v True of
        None \<Rightarrow> None
      | Some (n, r) \<Rightarrow> if n < 0 \<or> 60 \<le> n then None else Some (st\<lparr>p_min := n\<rparr>, r))"
| "parse_std stdZeroSecond st v =
     (case getnum v True of
        None \<Rightarrow> None
      | Some (n, r) \<Rightarrow>
          if n < 0 \<or> 60 \<le> n then None
          else if 2 \<le> length r \<and> commaOrPeriod (r ! 0) \<and> isDigit r 1 then
            (let k = 2 + length (takeWhile is_digit (drop 2 r))
             in Some (st\<lparr>p_sec := n, p_nsec := parseNanoseconds r k\<rparr>, drop k r))
          else Some (st\<lparr>p_sec := n\<rparr>, r))"
| "parse_std stdISO8601ColonTZ st v =
     (if 1 \<le> length v \<and> v ! 0 = CHR ''Z'' then Some (st\<lparr>p_zone := Some 0\<rparr>, drop 1 v)
      else if length v < 6 then None
      else if v ! 3 \<noteq> CHR '':'' then None
      else (case zone_offset (v ! 0) (take 2 (drop 1 v)) (take 2 (drop 4 v)) of
              None \<Rightarrow> None
            | Some z \<Rightarrow> Some (st\<lparr>p_zone := Some z\<rparr>, drop 6 v)))"
| "parse_std stdNumTZ st v =
     (if length v < 5 then None
      else (case zone_offset (v ! 0) (take 2 (drop 1 v)) (take 2 (drop 3 v)) of
              None \<Rightarrow> None
            | Some z \<Rightarrow> Some (st\<lparr>p_zone := Some z\<rparr>, drop 5 v)))"

text \<open>The loop of \<open>Parse\<close> over the chunks; text left over in the value is an error.\<close>

fun parse_chunks :: "chunk list \<Rightarrow> pstate \<Rightarrow> string \<Rightarrow> pstate option" where
  "parse_chunks [] st v = (if v = [] then Some st else None)"
| "parse_chunks (Lit p # cs) st v =
     (case skip v p of None \<Rightarrow> None | Some v' \<Rightarrow> parse_chunks cs st v')"
| "parse_chunks (Std sd # cs) st v =
     (case parse_std sd st v of None \<Rightarrow> None | Some (st', v') \<Rightarrow> parse_chunks cs st' v')"

text \<open>
  \<open>time.Parse\<close>: \<open>None\<close> is the error return. A month or day the layout does not
  have is 1, the year is 0; the day must exist in its month; without a zone the time
  is in UTC.
\<close>

definition Parse :: "string \<Rightarrow> string \<Rightarrow> Time option" where
  "Parse layout v =
     (case parse_chunks (chunks layout) pstate0 v of
        None \<Rightarrow> None
      | Some st \<Rightarrow>
          (let month = (if p_month st < 0 then 1 else p_month st);
               day = (if p_day st < 0 then 1 else p_day st)
           in if day < 1 \<or> day > daysIn month (p_year st) then None
              else Some (Date (p_year st) month day (p_hour st) (p_min st) (p_sec st)
                              (p_nsec st) (case p_zone st of None \<Rightarrow> 0 | Some z \<Rightarrow> z))))"

definition RFC3339 :: string where
  "RFC3339 = ''2006-01-02T15:04:05Z07:00''"

section \<open>Other library functions\<close>

text \<open>
  \<open>strconv.Atoi\<close>: an optional sign and decimal digits, within the range of a 64-bit
  \<open>int\<close>; \<open>None\<close> is the error return.
\<close>

definition Atoi :: "string \<Rightarrow> int option" where
  "Atoi s =
     (let body = (if s \<noteq> [] \<and> (hd s = CHR ''+'' \<or> hd s = CHR ''-'') then tl s else s);
          n = (if s \<noteq> [] \<and> hd s = CHR ''-'' then - digits_value body else digits_value body)
      in if body = [] \<or> \<not> all_digits body then None
         else if n < - (2 ^ 63) \<or> 2 ^ 63 - 1 < n then None
         else Some n)"

text \<open>
  \<open>json.Unmarshal\<close> into a \<open>map[string]interface{}\<close> is not modelled: the decoder is
  a parameter of the parser, giving the decoded object as a map from keys to values, or
  \<open>None\<close> for the error return. The program only asks whether a value is a string.
\<close>

datatype json_value =
  JString string | JNumber | JBool bool | JNull
  | JArray "json_value list" | JObject "(string \<times> json_value) list"

text \<open>
  What the program takes from its host and from the tables of its library: the JSON
  decoder, the calendar year of \<open>time.Now()\<close>, and the upper and lower case tables
  of package \<open>unicode\<close> for the code points that are not ASCII.
\<close>

record Runtime =
  json_Unmarshal :: "string \<Rightarrow> (string \<rightharpoonup> json_value) option"
  now_Year :: int
  upper_table :: "int \<Rightarrow> int"
  lower_table :: "int \<Rightarrow> int"

subsection \<open>Regular expressions (package regexp)\<close>

text \<open>
  The patterns of this program are sequences of literal bytes, character classes,
  repetitions of one class, capture groups (not nested) and the anchors. A compiled
  pattern is the list of these tokens. Matching is leftmost-first: a repetition is
  greedy and gives bytes back only when the rest of the pattern fails. The classes are
  ASCII classes or their complements, so matching byte by byte agrees with matching
  rune by rune.
\<close>

datatype cclass = Digit | Word | Space | NotSpace | AnyChar | NoneOf string

datatype rtok =
  Bol | Eol | OpenG | CloseG | Chr char | One cclass
  | Plus cclass | Star cclass | Rep nat cclass

fun in_class :: "cclass \<Rightarrow> char \<Rightarrow> bool" where
  "in_class Digit c = is_digit c"
| "in_class Word c =
     (is_digit c \<or> (65 \<le> byte c \<and> byte c \<le> 90)
      \<or> (97 \<le> byte c \<and> byte c \<le> 122) \<or> byte c = 95)"
| "in_class Space c = (byte c \<in> {9, 10, 12, 13, 32})"
| "in_class NotSpace c = (byte c \<notin> {9, 10, 12, 13, 32})"
| "in_class AnyChar c = (byte c \<noteq> 10)"
| "in_class (NoneOf s) c = (c \<notin> set s)"

fun first_some :: "('a \<Rightarrow> 'b option) \<Rightarrow> 'a list \<Rightarrow> 'b option" where
  "first_some f [] = None"
| "first_some f (x # xs) = (case f x of Some r \<Rightarrow> Some r | None \<Rightarrow> first_some f xs)"

text \<open>
  \<open>rmatch ts line pos opens caps\<close> matches the tokens \<open>ts\<close> from position \<open>pos\<close> of
  the line; \<open>opens\<close> are the starts of the groups still open and \<open>caps\<close> the groups
  closed so far. The result is the end of the match and the captured groups.
\<close>

fun rmatch :: "rtok list \<Rightarrow> string \<Rightarrow> nat \<Rightarrow> nat list \<Rightarrow> string list
                \<Rightarrow> (nat \<times> string list) option" where
  "rmatch [] line pos opens caps = Some (pos, caps)"
| "rmatch (Bol # ts) line pos opens caps =
     (if pos = 0 then rmatch ts line pos opens caps else None)"
| "rmatch (Eol # ts) line pos opens caps =
     (if pos = length line then rmatch ts line pos opens caps else None)"
| "rmatch (OpenG # ts) line pos opens caps = rmatch ts line pos (pos # opens) caps"
| "rmatch (CloseG # ts) line pos opens caps =
     (case opens of
        [] \<Rightarrow> None
      | st # os \<Rightarrow> rmatch ts line pos os (caps @ [take (pos - st) (drop st line)]))"
| "rmatch (Chr c # ts) line pos opens caps =
     (if pos < length line \<and> line ! pos = c then rmatch ts line (pos + 1) opens caps
      else None)"
| "rmatch (One k # ts) line pos opens caps =
     (if pos < length line \<and> in_class k (line ! pos) then rmatch ts line (pos + 1) opens caps
      else None)"
| "rmatch (Plus k # ts) line pos opens caps =
     (let n = length (takeWhile (in_class k) (drop pos line))
      in first_some (\<lambda>i. rmatch ts line (pos + i) opens caps) (rev [1..<n + 1]))"
| "rmatch (Star k # ts) line pos opens caps =
     (let n = length (takeWhile (in_class k) (drop pos line))
      in first_some (\<lambda>i. rmatch ts line (pos + i) opens caps) (rev [0..<n + 1]))"
| "rmatch (Rep m k # ts) line pos opens caps =
     (if m \<le> length (takeWhile (in_class k) (drop pos line))
      then rmatch ts line (pos + m) opens caps else None)"

text \<open>
  \<open>FindStringSubmatch\<close>: the leftmost match, as the matched text followed by the
  groups; \<open>None\<close> is the \<open>nil\<close> slice of a line that does not match.
\<close>

definition FindStringSubmatch :: "rtok list \<Rightarrow> string \<Rightarrow> string list option" where
  "FindStringSubmatch re line =
     first_some
       (\<lambda>st. case rmatch re line st [] [] of
               None \<Rightarrow> None
             | Some (e, caps) \<Rightarrow> Some (take (e - st) (drop st line) # caps))
       [0..<length line + 1]"

section \<open>The log analyzer (main.go)\<close>

subsection \<open>Data\<close>

record LogEntry =
  Timestamp :: Time
  Level :: string
  Message :: string
  Source :: string
  Raw :: string

text \<open>
  \<open>TimeRange\<close> is kept as the pair of times that \<open>showStats\<close> formats into the
  string \<open>"earliest to latest"\<close>; \<open>None\<close> is the empty string.
\<close>

record LogStats =
  TotalLines :: int
  ErrorCount :: int
  WarnCount :: int
  InfoCount :: int
  DebugCount :: int
  TimeRange :: "(Time \<times> Time) option"
  TopSources :: "string \<rightharpoonup> int"
  TopErrors :: "string \<rightharpoonup> int"

record Filters =
  FLevel :: string
  StartTime :: "Time option"
  EndTime :: "Time option"
  FSource :: string
  Keyword :: string

record LogAnalyzer =
  entries :: "LogEntry list"
  patterns :: "string \<rightharpoonup> rtok list"
  filters :: Filters

text \<open>A composite literal \<open>LogEntry{Raw: line}\<close>: the other fields have their zero value.\<close>

definition entry_Raw :: "string \<Rightarrow> LogEntry" where
  "entry_Raw line =
     \<lparr>Timestamp = zero_Time, Level = [], Message = [], Source = [], Raw = line\<rparr>"

subsection \<open>The pattern table\<close>

text \<open>
  \<open>logPatterns\<close>, each pattern as \<open>regexp.Compile\<close> reads it:
  \<^item> apache: \<^verbatim>\<open>^(\S+) \S+ \S+ \[([^\]]+)\] "([^"]*)" (\d+) (\d+)\<close>
  \<^item> nginx: \<^verbatim>\<open>^(\S+) - - \[([^\]]+)\] "([^"]*)" (\d+) (\d+) "([^"]*)" "([^"]*)"\<close>
  \<^item> syslog: \<^verbatim>\<open>^(\w+\s+\d+\s+\d+:\d+:\d+) (\S+) ([^:]+): (.*)\<close>
  \<^item> generic: \<^verbatim>\<open>^(\d{4}-\d{2}-\d{2}\s+\d{2}:\d{2}:\d{2})\s+\[(\w+)\]\s+(.*)\<close>
  \<^item> json: \<^verbatim>\<open>^\{.*\}$\<close>
\<close>

definition quoted_group :: "rtok list" where
  "quoted_group = [Chr (CHR 0x22), OpenG, Star (NoneOf [CHR 0x22]), CloseG, Chr (CHR 0x22)]"

definition bracket_group :: "rtok list" where
  "bracket_group = [Chr CHR ''['', OpenG, Plus (NoneOf '']''), CloseG, Chr CHR '']'']"

definition number_group :: "rtok list" where
  "number_group = [OpenG, Plus Digit, CloseG]"

definition apache_re :: "rtok list" where
  "apache_re =
     [Bol, OpenG, Plus NotSpace, CloseG, Chr CHR '' '', Plus NotSpace, Chr CHR '' '',
      Plus NotSpace, Chr CHR '' ''] @ bracket_group @ [Chr CHR '' ''] @ quoted_group
     @ [Chr CHR '' ''] @ number_group @ [Chr CHR '' ''] @ number_group"

definition nginx_re :: "rtok list" where
  "nginx_re =
     [Bol, OpenG, Plus NotSpace, CloseG, Chr CHR '' '', Chr CHR ''-'', Chr CHR '' '',
      Chr CHR ''-'', Chr CHR '' ''] @ bracket_group @ [Chr CHR '' ''] @ quoted_group
     @ [Chr CHR '' ''] @ number_group @ [Chr CHR '' ''] @ number_group
     @ [Chr CHR '' ''] @ quoted_group @ [Chr CHR '' ''] @ quoted_group"

definition syslog_re :: "rtok list" where
  "syslog_re =
     [Bol, OpenG, Plus Word, Plus Space, Plus Digit, Plus Space,
      Plus Digit, Chr CHR '':'', Plus Digit, Chr CHR '':'', Plus Digit, CloseG,
      Chr CHR '' '', OpenG, Plus NotSpace, CloseG,
      Chr CHR '' '', OpenG, Plus (NoneOf '':''), CloseG, Chr CHR '':'', Chr CHR '' '',
      OpenG, Star AnyChar, CloseG]"

definition generic_re :: "rtok list" where
  "generic_re =
     [Bol, OpenG, Rep 4 Digit, Chr CHR ''-'', Rep 2 Digit, Chr CHR ''-'', Rep 2 Digit,
      Plus Space, Rep 2 Digit, Chr CHR '':'', Rep 2 Digit, Chr CHR '':'', Rep 2 Digit, CloseG,
      Plus Space, Chr CHR ''['', OpenG, Plus Word, CloseG, Chr CHR '']'', Plus Space,
      OpenG, Star AnyChar, CloseG]"

definition json_re :: "rtok list" where
  "json_re = [Bol, Chr CHR ''{'', Star AnyChar, Chr CHR ''}'', Eol]"

definition logPatterns :: "(string \<times> rtok list) list" where
  "logPatterns =
     [(''apache'', apache_re), (''nginx'', nginx_re), (''syslog'', syslog_re),
      (''generic'', generic_re), (''json'', json_re)]"

definition no_Filters :: Filters where
  "no_Filters = \<lparr>FLevel = [], StartTime = None, EndTime = None, FSource = [], Keyword = []\<rparr>"

text \<open>\<open>NewLogAnalyzer\<close>: every pattern of the table compiles and is registered.\<close>

definition NewLogAnalyzer :: LogAnalyzer where
  "NewLogAnalyzer = \<lparr>entries = [], patterns = map_of logPatterns, filters = no_Filters\<rparr>"

subsection \<open>Level inference\<close>

definition inferLogLevel :: "Runtime \<Rightarrow> string \<Rightarrow> string" where
  "inferLogLevel rt message =
     (let message = ToUpper (upper_table rt) message
      in if Contains message ''ERROR'' \<or> Contains message ''FATAL''
            \<or> Contains message ''CRITICAL'' then ''ERROR''
         else if Contains message ''WARN'' \<or> Contains message ''WARNING'' then ''WARN''
         else if Contains message ''DEBUG'' \<or> Contains message ''TRACE'' then ''DEBUG''
         else ''INFO'')"

subsection \<open>The line parser\<close>

text \<open>
  The parsers return a pointer to a record; \<open>None\<close> is the \<open>nil\<close> pointer that the
  callers test for.
\<close>

text \<open>The type assertion \<open>v, ok := jsonData[key].(string)\<close>; \<open>None\<close> is \<open>ok = false\<close>.\<close>

definition string_field :: "(string \<rightharpoonup> json_value) \<Rightarrow> string \<Rightarrow> string option" where
  "string_field jsonData key =
     (case jsonData key of Some (JString v) \<Rightarrow> Some v | _ \<Rightarrow> None)"

definition parseJSON :: "Runtime \<Rightarrow> string \<Rightarrow> LogEntry option" where
  "parseJSON rt line =
     (case json_Unmarshal rt line of
        None \<Rightarrow> Some ((entry_Raw line)\<lparr>Message := line\<rparr>)
      | Some jsonData \<Rightarrow>
          (let entry = entry_Raw line;
               entry = (case string_field jsonData ''timestamp'' of
                          Some timestamp \<Rightarrow>
                            (case Parse RFC3339 timestamp of
                               Some t \<Rightarrow> entry\<lparr>Timestamp := t\<rparr>
                             | None \<Rightarrow> entry)
                        | None \<Rightarrow> entry);
               entry = (case string_field jsonData ''level'' of
                          Some level \<Rightarrow> entry\<lparr>Level := ToUpper (upper_table rt) level\<rparr>
                        | None \<Rightarrow> entry);
               entry = (case string_field jsonData ''message'' of
                          Some message \<Rightarrow> entry\<lparr>Message := message\<rparr>
                        | None \<Rightarrow>
                            (case string_field jsonData ''msg'' of
                               Some msg \<Rightarrow> entry\<lparr>Message := msg\<rparr>
                             | None \<Rightarrow> entry));
               entry = (case string_field jsonData ''source'' of
                          Some source \<Rightarrow> entry\<lparr>Source := source\<rparr>
                        | None \<Rightarrow>
                            (case string_field jsonData ''component'' of
                               Some component \<Rightarrow> entry\<lparr>Source := component\<rparr>
                             | None \<Rightarrow> entry))
           in Some entry))"

definition parseWithPattern :: "Runtime \<Rightarrow> string \<Rightarrow> string \<Rightarrow> string list \<Rightarrow> LogEntry option" where
  "parseWithPattern rt line patternName matches =
     (let entry = entry_Raw line
      in if patternName = ''generic'' then
           (if length matches \<ge> 4 then
              (let entry = (case Parse ''2006-01-02 15:04:05'' (matches ! 1) of
                              Some t \<Rightarrow> entry\<lparr>Timestamp := t\<rparr>
                            | None \<Rightarrow> entry)
               in Some (entry\<lparr>Level := ToUpper (upper_table rt) (matches ! 2),
                               Message := matches ! 3\<rparr>))
            else Some entry)
         else if patternName = ''syslog'' then
           (if length matches \<ge> 5 then
              (let entry = (case Parse ''Jan 2 15:04:05'' (matches ! 1) of
                              Some t \<Rightarrow> entry\<lparr>Timestamp := AddDate t (now_Year rt) 0 0\<rparr>
                            | None \<Rightarrow> entry)
               in Some (entry\<lparr>Source := matches ! 2, Message := matches ! 4,
                               Level := inferLogLevel rt (matches ! 4)\<rparr>))
            else Some entry)
         else if patternName = ''apache'' \<or> patternName = ''nginx'' then
           (if length matches \<ge> 4 then
              (let entry = entry\<lparr>Source := matches ! 1\<rparr>;
                   entry = (case Parse ''02/Jan/2006:15:04:05 -0700'' (matches ! 2) of
                              Some t \<Rightarrow> entry\<lparr>Timestamp := t\<rparr>
                            | None \<Rightarrow> entry);
                   entry = entry\<lparr>Message := matches ! 3\<rparr>
               in if length matches \<ge> 5 then
                    (case Atoi (matches ! 4) of
                       Some status \<Rightarrow>
                         if status \<ge> 500 then Some (entry\<lparr>Level := ''ERROR''\<rparr>)
                         else if status \<ge> 400 then Some (entry\<lparr>Level := ''WARN''\<rparr>)
                         else Some (entry\<lparr>Level := ''INFO''\<rparr>)
                     | None \<Rightarrow> Some entry)
                  else Some entry)
            else Some entry)
         else Some entry)"

definition timePatterns :: "string list" where
  "timePatterns =
     [''2006-01-02 15:04:05'', ''2006/01/02 15:04:05'', ''Jan 2 15:04:05'',
      ''2006-01-02T15:04:05Z07:00'']"

text \<open>The loop of \<open>parseGeneric\<close> over the layouts; it ends at the first that parses.\<close>

fun parseGeneric_loop :: "string list \<Rightarrow> string \<Rightarrow> LogEntry \<Rightarrow> LogEntry" where
  "parseGeneric_loop [] line entry = entry"
| "parseGeneric_loop (pattern # rest) line entry =
     (if length line \<ge> length pattern then
        (case Parse pattern (take (length pattern) line) of
           Some t \<Rightarrow>
             (let entry = entry\<lparr>Timestamp := t\<rparr>
              in if length line > length pattern + 1
                 then entry\<lparr>Message := TrimSpace (drop (length pattern + 1) line)\<rparr>
                 else entry)
         | None \<Rightarrow> parseGeneric_loop rest line entry)
      else parseGeneric_loop rest line entry)"

definition parseGeneric :: "Runtime \<Rightarrow> string \<Rightarrow> LogEntry option" where
  "parseGeneric rt line =
     (let entry = parseGeneric_loop timePatterns line ((entry_Raw line)\<lparr>Message := line\<rparr>)
      in Some (entry\<lparr>Level := inferLogLevel rt (Message entry)\<rparr>))"

text \<open>The loop of \<open>parseLine\<close> over the pattern names, and the fallback after it.\<close>

fun parseLine_loop :: "LogAnalyzer \<Rightarrow> Runtime \<Rightarrow> string \<Rightarrow> string list \<Rightarrow> LogEntry option" where
  "parseLine_loop la rt line [] = parseGeneric rt line"
| "parseLine_loop la rt line (patternName # rest) =
     (case patterns la patternName of
        Some regex \<Rightarrow>
          (case FindStringSubmatch regex line of
             Some matches \<Rightarrow> parseWithPattern rt line patternName matches
           | None \<Rightarrow> parseLine_loop la rt line rest)
      | None \<Rightarrow> parseLine_loop la rt line rest)"

definition parseLine :: "LogAnalyzer \<Rightarrow> Runtime \<Rightarrow> string \<Rightarrow> string \<Rightarrow> LogEntry option" where
  "parseLine la rt line format =
     (if format = ''json'' \<or> (format = ''auto'' \<and> HasPrefix (TrimSpace line) ''{'')
      then parseJSON rt line
      else parseLine_loop la rt line
             (if format = ''auto'' then [''generic'', ''syslog'', ''apache'', ''nginx'']
              else [format]))"

text \<open>\<open>parseFile\<close> on the lines the scanner reads from the file.\<close>

fun parseFile :: "LogAnalyzer \<Rightarrow> Runtime \<Rightarrow> string list \<Rightarrow> string \<Rightarrow> LogAnalyzer" where
  "parseFile la rt [] format = la"
| "parseFile la rt (line # rest) format =
     (case parseLine la rt line format of
        Some entry \<Rightarrow> parseFile (la\<lparr>entries := entries la @ [entry]\<rparr>) rt rest format
      | None \<Rightarrow> parseFile la rt rest format)"

subsection \<open>Filters\<close>

text \<open>The loop of \<open>filterEntries\<close>; each \<open>continue\<close> drops the entry.\<close>

fun filterEntries_loop ::
  "Runtime \<Rightarrow> Filters \<Rightarrow> LogEntry list \<Rightarrow> LogEntry list \<Rightarrow> LogEntry list" where
  "filterEntries_loop rt f [] filtered = filtered"
| "filterEntries_loop rt f (entry # rest) filtered =
     (if FLevel f \<noteq> [] \<and> Level entry \<noteq> FLevel f then filterEntries_loop rt f rest filtered
      else if FSource f \<noteq> []
              \<and> \<not> Contains (ToLower (lower_table rt) (Source entry))
                    (ToLower (lower_table rt) (FSource f))
        then filterEntries_loop rt f rest filtered
      else if Keyword f \<noteq> []
              \<and> \<not> Contains (ToLower (lower_table rt) (Message entry))
                    (ToLower (lower_table rt) (Keyword f))
        then filterEntries_loop rt f rest filtered
      else if (case StartTime f of
                 None \<Rightarrow> False
               | Some st \<Rightarrow> \<not> IsZero (Timestamp entry) \<and> Before (Timestamp entry) st)
        then filterEntries_loop rt f rest filtered
      else if (case EndTime f of
                 None \<Rightarrow> False
               | Some et \<Rightarrow> \<not> IsZero (Timestamp entry) \<and> After (Timestamp entry) et)
        then filterEntries_loop rt f rest filtered
      else filterEntries_loop rt f rest (filtered @ [entry]))"

definition filterEntries :: "LogAnalyzer \<Rightarrow> Runtime \<Rightarrow> LogEntry list" where
  "filterEntries la rt = filterEntries_loop rt (filters la) (entries la) []"

definition matchesFilters :: "LogAnalyzer \<Rightarrow> Runtime \<Rightarrow> LogEntry \<Rightarrow> bool" where
  "matchesFilters la rt entry =
     (if FLevel (filters la) \<noteq> [] \<and> Level entry \<noteq> FLevel (filters la) then False
      else if FSource (filters la) \<noteq> []
              \<and> \<not> Contains (ToLower (lower_table rt) (Source entry))
                    (ToLower (lower_table rt) (FSource (filters la)))
        then False
      else if Keyword (filters la) \<noteq> []
              \<and> \<not> Contains (ToLower (lower_table rt) (Message entry))
                    (ToLower (lower_table rt) (Keyword (filters la)))
        then False
      else if (case StartTime (filters la) of
                 None \<Rightarrow> False
               | Some st \<Rightarrow> \<not> IsZero (Timestamp entry) \<and> Before (Timestamp entry) st)
        then False
      else if (case EndTime (filters la) of
                 None \<Rightarrow> False
               | Some et \<Rightarrow> \<not> IsZero (Timestamp entry) \<and> After (Timestamp entry) et)
        then False
      else True)"

text \<open>
  \<open>getHead\<close> and \<open>getTail\<close>; \<open>None\<close> is the panic of a slice expression with a
  negative bound.
\<close>

definition getHead :: "LogEntry list \<Rightarrow> int \<Rightarrow> LogEntry list option" where
  "getHead es n =
     (if n \<ge> int (length es) then Some es
      else if n < 0 then None
      else Some (take (nat n) es))"

definition getTail :: "LogEntry list \<Rightarrow> int \<Rightarrow> LogEntry list option" where
  "getTail es n =
     (if n \<ge> int (length es) then Some es
      else if n < 0 then None
      else Some (drop (length es - nat n) es))"

subsection \<open>Statistics\<close>

definition incr :: "(string \<rightharpoonup> int) \<Rightarrow> string \<Rightarrow> (string \<rightharpoonup> int)" where
  "incr m k = m(k \<mapsto> (case m k of None \<Rightarrow> 0 | Some v \<Rightarrow> v) + 1)"

text \<open>
  One round of the loop of \<open>showStats\<close>, on the statistics and the two local
  variables \<open>earliest\<close> and \<open>latest\<close>.
\<close>

definition showStats_step :: "LogStats \<times> Time \<times> Time \<Rightarrow> LogEntry \<Rightarrow> LogStats \<times> Time \<times> Time" where
  "showStats_step acc entry =
     (case acc of
        (stats, earliest, latest) \<Rightarrow>
          (let stats =
                 (if Level entry = ''ERROR''
                    then stats\<lparr>ErrorCount := ErrorCount stats + 1,
                               TopErrors := incr (TopErrors stats) (Message entry)\<rparr>
                  else if Level entry = ''WARN'' then stats\<lparr>WarnCount := WarnCount stats + 1\<rparr>
                  else if Level entry = ''INFO'' then stats\<lparr>InfoCount := InfoCount stats + 1\<rparr>
                  else if Level entry = ''DEBUG'' then stats\<lparr>DebugCount := DebugCount stats + 1\<rparr>
                  else stats);
               stats =
                 (if Source entry \<noteq> []
                    then stats\<lparr>TopSources := incr (TopSources stats) (Source entry)\<rparr>
                  else stats)
           in if \<not> IsZero (Timestamp entry) then
                (stats,
                 (if IsZero earliest \<or> Before (Timestamp entry) earliest
                    then Timestamp entry else earliest),
                 (if IsZero latest \<or> After (Timestamp entry) latest
                    then Timestamp entry else latest))
              else (stats, earliest, latest)))"

text \<open>
  \<open>showStats\<close>: the statistics that are printed. The method has no parameter; it
  reads \<open>la.entries\<close>.
\<close>

definition showStats :: "LogAnalyzer \<Rightarrow> LogStats" where
  "showStats la =
     (case foldl showStats_step
             (\<lparr>TotalLines = int (length (entries la)), ErrorCount = 0, WarnCount = 0,
               InfoCount = 0, DebugCount = 0, TimeRange = None,
               TopSources = Map.empty, TopErrors = Map.empty\<rparr>, zero_Time, zero_Time)
             (entries la) of
        (stats, earliest, latest) \<Rightarrow>
          if \<not> IsZero earliest \<and> \<not> IsZero latest
          then stats\<lparr>TimeRange := Some (earliest, latest)\<rparr> else stats)"

text \<open>
  The one-shot branch of \<open>main\<close>, after \<open>parseFile\<close>: the statistics, or the
  entries handed to \<open>outputEntries\<close>.
\<close>

datatype result = Report LogStats | Listing "LogEntry list option"

definition main_oneshot :: "LogAnalyzer \<Rightarrow> Runtime \<Rightarrow> bool \<Rightarrow> int \<Rightarrow> int \<Rightarrow> result" where
  "main_oneshot analyzer rt stats head tail =
     (let filteredEntries = filterEntries analyzer rt
      in if stats then Report (showStats analyzer)
         else if head > 0 then Listing (getHead filteredEntries head)
         else if tail > 0 then Listing (getTail filteredEntries tail)
         else Listing (Some filteredEntries))"

subsection \<open>The top of a frequency table\<close>

record kv =
  Key :: string
  Val :: int

text \<open>
  \<open>for k, v := range m\<close> visits every key of the map once, in an order that the
  language leaves open: \<open>range_map m ss\<close> says that \<open>ss\<close> is one of the slices the
  first loop of \<open>printTopMap\<close> can build.
\<close>

definition range_map :: "(string \<rightharpoonup> int) \<Rightarrow> kv list \<Rightarrow> bool" where
  "range_map m ss =
     (distinct (map Key ss) \<and> Key ` set ss = dom m
      \<and> list_all (\<lambda>e. m (Key e) = Some (Val e)) ss)"

text \<open>
  \<open>sort.Slice(x, less)\<close> rearranges the slice so that no element is \<open>less\<close> than
  one before it; the library leaves the order of equal elements open.
  \<open>sort_Slice lt xs ys\<close>, with \<open>lt\<close> for \<open>less\<close>, says that \<open>ys\<close> is a possible result on \<open>xs\<close>.
\<close>

definition sort_Slice :: "('a \<Rightarrow> 'a \<Rightarrow> bool) \<Rightarrow> 'a list \<Rightarrow> 'a list \<Rightarrow> bool" where
  "sort_Slice lt xs ys = (mset ys = mset xs \<and> sorted_wrt (\<lambda>a b. \<not> lt b a) ys)"

text \<open>The printing loop: it stops at index \<open>limit\<close>.\<close>

fun printTop_loop :: "kv list \<Rightarrow> int \<Rightarrow> int \<Rightarrow> kv list" where
  "printTop_loop [] limit i = []"
| "printTop_loop (e # ss) limit i =
     (if i \<ge> limit then [] else e # printTop_loop ss limit (i + 1))"

text \<open>\<open>printTopMap m limit out\<close>: the call can print the lines \<open>out\<close>.\<close>

inductive printTopMap :: "(string \<rightharpoonup> int) \<Rightarrow> int \<Rightarrow> kv list \<Rightarrow> bool" where
  printTopMapI:
    "range_map m ss \<Longrightarrow> sort_Slice (\<lambda>a b. Val a > Val b) ss ss'
     \<Longrightarrow> printTopMap m limit (printTop_loop ss' limit 0)"

section \<open>Notions used in the statements\<close>

text \<open>The three conditions of the filter that do not look at the timestamp.\<close>

definition keeps :: "Runtime \<Rightarrow> Filters \<Rightarrow> LogEntry \<Rightarrow> bool" where
  "keeps rt f e =
     ((FLevel f = [] \<or> Level e = FLevel f)
      \<and> (FSource f = []
           \<or> Contains (ToLower (lower_table rt) (Source e)) (ToLower (lower_table rt) (FSource f)))
      \<and> (Keyword f = []
           \<or> Contains (ToLower (lower_table rt) (Message e))
                (ToLower (lower_table rt) (Keyword f))))"

definition known_level :: "string \<Rightarrow> bool" where
  "known_level l = (l = ''ERROR'' \<or> l = ''WARN'' \<or> l = ''INFO'' \<or> l = ''DEBUG'')"

definition level_count :: "string \<Rightarrow> LogEntry list \<Rightarrow> int" where
  "level_count l es = int (length (filter (\<lambda>e. Level e = l) es))"

text \<open>The keywords of the three levels, as substrings of a string.\<close>

definition error_word :: "string \<Rightarrow> bool" where
  "error_word u = (sublist ''ERROR'' u \<or> sublist ''FATAL'' u \<or> sublist ''CRITICAL'' u)"

definition warn_word :: "string \<Rightarrow> bool" where
  "warn_word u = (sublist ''WARN'' u \<or> sublist ''WARNING'' u)"

definition debug_word :: "string \<Rightarrow> bool" where
  "debug_word u = (sublist ''DEBUG'' u \<or> sublist ''TRACE'' u)"

text \<open>The condition under which \<open>parseLine\<close> hands the line to \<open>parseJSON\<close>.\<close>

definition json_path :: "string \<Rightarrow> string \<Rightarrow> bool" where
  "json_path line format =
     (format = ''json'' \<or> (format = ''auto'' \<and> HasPrefix (TrimSpace line) ''{''))"

text \<open>The pattern names \<open>parseLine\<close> tries for a format, in their order.\<close>

definition pattern_names :: "string \<Rightarrow> string list" where
  "pattern_names format =
     (if format = ''auto'' then [''generic'', ''syslog'', ''apache'', ''nginx''] else [format])"

text \<open>None of the named patterns that are registered matches the line.\<close>

definition no_match :: "LogAnalyzer \<Rightarrow> string \<Rightarrow> string list \<Rightarrow> bool" where
  "no_match la line names =
     list_all (\<lambda>name. case patterns la name of
                         None \<Rightarrow> True
                       | Some regex \<Rightarrow> FindStringSubmatch regex line = None) names"

text \<open>
  A layout of the fallback parser parses on a line when the line is at least as long
  as the layout text and its first bytes, as many as the layout text has, parse.
  \<open>first_layout\<close> is the first such layout, and \<open>rest_message\<close> the message the
  fallback parser then keeps.
\<close>

definition layout_parses :: "string \<Rightarrow> string \<Rightarrow> bool" where
  "layout_parses line pattern =
     (length pattern \<le> length line \<and> Parse pattern (take (length pattern) line) \<noteq> None)"

definition first_layout :: "string \<Rightarrow> string option" where
  "first_layout line = find (layout_parses line) timePatterns"

definition rest_message :: "string \<Rightarrow> string \<Rightarrow> string" where
  "rest_message line pattern =
     (if length line > length pattern + 1
      then TrimSpace (drop (length pattern + 1) line) else line)"

text \<open>
  The fields \<open>Parse\<close> has read are in range (\<open>pvalid\<close>), and so are the calendar
  fields of the time it returns (\<open>valid_Time\<close>).
\<close>

definition pvalid :: "pstate \<Rightarrow> bool" where
  "pvalid st =
     ((p_month st = - 1 \<or> (1 \<le> p_month st \<and> p_month st \<le> 12))
      \<and> 0 \<le> p_hour st \<and> p_hour st < 24 \<and> 0 \<le> p_min st \<and> p_min st < 60
      \<and> 0 \<le> p_sec st \<and> p_sec st < 60 \<and> 0 \<le> p_nsec st \<and> p_nsec st < 1000000000)"

definition valid_Time :: "Time \<Rightarrow> bool" where
  "valid_Time t =
     (1 \<le> Month t \<and> Month t \<le> 12 \<and> 1 \<le> Day t \<and> Day t \<le> daysIn (Month t) (Year t)
      \<and> 0 \<le> Hour t \<and> Hour t < 24 \<and> 0 \<le> Minute t \<and> Minute t < 60
      \<and> 0 \<le> Second t \<and> Second t < 60 \<and> 0 \<le> Nanosecond t \<and> Nanosecond t < 1000000000)"

text \<open>Sample entries and a sample table for the instances below.\<close>

definition sample_entry :: "string \<Rightarrow> string \<Rightarrow> LogEntry" where
  "sample_entry level message =
     \<lparr>Timestamp = zero_Time, Level = level, Message = message, Source = [], Raw = message\<rparr>"

definition two_entries :: LogAnalyzer where
  "two_entries =
     NewLogAnalyzer\<lparr>entries := [sample_entry ''ERROR'' ''boom'', sample_entry ''NOTICE'' ''hm'']\<rparr>"

definition new_year_2024 :: Time where
  "new_year_2024 = \<lparr>Year = 2024, Month = 1, Day = 1, Hour = 0, Minute = 0, Second = 0,
                      Nanosecond = 0, Offset = 0\<rparr>"

text \<open>
  Sample data for the instances below. \<open>sample_Unmarshal\<close> gives the decoder's
  answers on the lines used there: the object of \<open>sample_json\<close>, and the error return
  on a line that is not JSON text. It says nothing about other JSON text. The lines of
  the instances are ASCII, so the case tables of \<open>sample_rt\<close> are never looked at;
  \<open>dotless_rt\<close> has the two entries of the upper case table that lead to ASCII.
\<close>

definition dquote :: char where
  "dquote = CHR 0x22"

definition sample_json :: string where
  "sample_json =
     ''{'' @ [dquote] @ ''timestamp'' @ [dquote] @ '':'' @ [dquote] @ ''2024-01-01T10:00:00Z''
     @ [dquote] @ '','' @ [dquote] @ ''level'' @ [dquote] @ '':'' @ [dquote] @ ''error''
     @ [dquote] @ '','' @ [dquote] @ ''message'' @ [dquote] @ '':'' @ [dquote] @ ''boom''
     @ [dquote] @ '','' @ [dquote] @ ''source'' @ [dquote] @ '':'' @ [dquote] @ ''db''
     @ [dquote] @ ''}''"

definition sample_object :: "string \<rightharpoonup> json_value" where
  "sample_object =
     map_of [(''timestamp'', JString ''2024-01-01T10:00:00Z''), (''level'', JString ''error''),
             (''message'', JString ''boom''), (''source'', JString ''db'')]"

definition sample_Unmarshal :: "string \<Rightarrow> (string \<rightharpoonup> json_value) option" where
  "sample_Unmarshal line = (if line = sample_json then Some sample_object else None)"

definition sample_rt :: Runtime where
  "sample_rt = \<lparr>json_Unmarshal = sample_Unmarshal, now_Year = 2024,
                 upper_table = (\<lambda>r. r), lower_table = (\<lambda>r. r)\<rparr>"

definition dotless_rt :: Runtime where
  "dotless_rt =
     sample_rt\<lparr>upper_table := (\<lambda>r. if r = 305 then 73 else if r = 383 then 83 else r)\<rparr>"

definition dotless_critical :: string where
  "dotless_critical =
     ''cr'' @ [CHR 0xC4, CHR 0xB1] @ ''t'' @ [CHR 0xC4, CHR 0xB1] @ ''cal failure''"

definition syslog_line :: string where
  "syslog_line = ''Jan  5 10:00:00 myhost sshd[123]: error: bad thing''"

definition syslog_matches :: "string list" where
  "syslog_matches =
     [''Jan  5 10:00:00 myhost sshd[123]: error: bad thing'', ''Jan  5 10:00:00'',
      ''myhost'', ''sshd[123]'', ''error: bad thing'']"

definition jan_5 :: "int \<Rightarrow> Time" where
  "jan_5 y = \<lparr>Year = y, Month = 1, Day = 5, Hour = 10, Minute = 0, Second = 0,
              Nanosecond = 0, Offset = 0\<rparr>"

definition level_filtered :: LogAnalyzer where
  "level_filtered =
     NewLogAnalyzer\<lparr>entries := [sample_entry ''INFO'' ''started'', sample_entry ''ERROR'' ''boom''],
                    filters := no_Filters\<lparr>FLevel := ''ERROR''\<rparr>\<rparr>"

definition apache_line :: string where
  "apache_line =
     ''127.0.0.1 - - [10/Oct/2023:13:55:36 -0700] '' @ [dquote] @ ''GET /index.html''
     @ [dquote] @ '' 200 2326''"

definition sample_table :: "string \<rightharpoonup> int" where
  "sample_table = [''db'' \<mapsto> 3, ''api'' \<mapsto> 3, ''web'' \<mapsto> 1]"

definition sample_top :: "kv list" where
  "sample_top =
     [\<lparr>Key = ''api'', Val = 3\<rparr>, \<lparr>Key = ''db'', Val = 3\<rparr>, \<lparr>Key = ''web'', Val = 1\<rparr>]"

section \<open>The two filters agree\<close>

lemma filterEntries_loop_filter:
  "filterEntries_loop rt (filters la) es acc = acc @ filter (matchesFilters la rt) es"
  by (induction es arbitrary: acc) (simp_all add: matchesFilters_def)

text \<open>
  C10. The filter of the one-shot path and the filter of follow mode are the same:
  \<open>filterEntries\<close> returns, in their order, exactly the entries that
  \<open>matchesFilters\<close> accepts.
\<close>

theorem filterEntries_matchesFilters:
  "filterEntries la rt = filter (matchesFilters la rt) (entries la)"
  by (simp add: filterEntries_def filterEntries_loop_filter)

section \<open>Entries without a timestamp\<close>

lemma matchesFilters_zero:
  "IsZero (Timestamp e) \<Longrightarrow> matchesFilters la rt e = keeps rt (filters la) e"
  by (auto simp: matchesFilters_def keeps_def split: option.splits)

lemma keeps_bounds: "keeps rt (f\<lparr>StartTime := s, EndTime := t\<rparr>) e = keeps rt f e"
  by (simp add: keeps_def)

text \<open>
  C6. An entry whose timestamp is the zero time is never dropped by the time range:
  both filters decide on the level, the source and the keyword alone, whatever the
  start and end bounds are.
\<close>

theorem unset_timestamp_passes_time_range:
  assumes "IsZero (Timestamp e)"
  shows "matchesFilters la rt e = keeps rt (filters la) e
       \<and> matchesFilters (la\<lparr>filters := (filters la)\<lparr>StartTime := s, EndTime := t\<rparr>\<rparr>) rt e
           = matchesFilters la rt e
       \<and> (e \<in> set (filterEntries la rt)
            \<longleftrightarrow> e \<in> set (entries la) \<and> keeps rt (filters la) e)"
proof -
  have m: "matchesFilters la' rt e = keeps rt (filters la') e" for la'
    using assms by (rule matchesFilters_zero)
  have "e \<in> set (filterEntries la rt) \<longleftrightarrow> e \<in> set (entries la) \<and> matchesFilters la rt e"
    by (simp add: filterEntries_def filterEntries_loop_filter)
  then show ?thesis
    using m [of la] m [of "la\<lparr>filters := (filters la)\<lparr>StartTime := s, EndTime := t\<rparr>\<rparr>"]
    by (simp add: keeps_bounds)
qed

theorem unset_timestamp_passes_time_range_witness:
  "IsZero (Timestamp (sample_entry ''INFO'' ''started''))
   \<and> matchesFilters
        (NewLogAnalyzer\<lparr>filters := no_Filters\<lparr>StartTime := Some new_year_2024,
                                                  EndTime := Some new_year_2024\<rparr>\<rparr>)
        sample_rt (sample_entry ''INFO'' ''started'')"
proof -
  have z: "IsZero (Timestamp (sample_entry ''INFO'' ''started''))" by code_simp
  have k: "keeps sample_rt (filters NewLogAnalyzer) (sample_entry ''INFO'' ''started'')"
    by code_simp
  show ?thesis
    using z k
      unset_timestamp_passes_time_range
        [OF z, where la = NewLogAnalyzer and rt = sample_rt
           and s = "Some new_year_2024" and t = "Some new_year_2024"]
    by (simp add: NewLogAnalyzer_def)
qed

section \<open>The level counts\<close>

lemma showStats_step_counts:
  "showStats_step (s, a, b) e = (s', a', b') \<Longrightarrow>
     TotalLines s' = TotalLines s
   \<and> ErrorCount s' = ErrorCount s + level_count ''ERROR'' [e]
   \<and> WarnCount s' = WarnCount s + level_count ''WARN'' [e]
   \<and> InfoCount s' = InfoCount s + level_count ''INFO'' [e]
   \<and> DebugCount s' = DebugCount s + level_count ''DEBUG'' [e]"
  by (auto simp: showStats_step_def level_count_def Let_def split: if_splits)

lemma level_count_Cons:
  "level_count l (e # es) = level_count l [e] + level_count l es"
  by (simp add: level_count_def)

lemma foldl_showStats_counts:
  "foldl showStats_step (s, a, b) es = (s', a', b') \<Longrightarrow>
     TotalLines s' = TotalLines s
   \<and> ErrorCount s' = ErrorCount s + level_count ''ERROR'' es
   \<and> WarnCount s' = WarnCount s + level_count ''WARN'' es
   \<and> InfoCount s' = InfoCount s + level_count ''INFO'' es
   \<and> DebugCount s' = DebugCount s + level_count ''DEBUG'' es"
proof (induction es arbitrary: s a b)
  case Nil
  then show ?case by (simp add: level_count_def)
next
  case (Cons e es)
  obtain s1 a1 b1 where step: "showStats_step (s, a, b) e = (s1, a1, b1)"
    by (cases "showStats_step (s, a, b) e") auto
  with Cons.prems have "foldl showStats_step (s1, a1, b1) es = (s', a', b')" by simp
  from Cons.IH [OF this] showStats_step_counts [OF step] show ?case
    by (simp add: level_count_Cons [of _ e es])
qed

lemma showStats_counts:
  "TotalLines (showStats la) = int (length (entries la))
   \<and> ErrorCount (showStats la) = level_count ''ERROR'' (entries la)
   \<and> WarnCount (showStats la) = level_count ''WARN'' (entries la)
   \<and> InfoCount (showStats la) = level_count ''INFO'' (entries la)
   \<and> DebugCount (showStats la) = level_count ''DEBUG'' (entries la)"
proof -
  let ?s0 = "\<lparr>TotalLines = int (length (entries la)), ErrorCount = 0, WarnCount = 0,
               InfoCount = 0, DebugCount = 0, TimeRange = None,
               TopSources = Map.empty, TopErrors = Map.empty\<rparr>"
  obtain s' a' b'
    where f: "foldl showStats_step (?s0, zero_Time, zero_Time) (entries la) = (s', a', b')"
    by (cases "foldl showStats_step (?s0, zero_Time, zero_Time) (entries la)") auto
  from foldl_showStats_counts [OF f] f show ?thesis
    by (simp add: showStats_def)
qed

lemma level_counts_sum:
  "level_count ''ERROR'' es + level_count ''WARN'' es + level_count ''INFO'' es
     + level_count ''DEBUG'' es = int (length (filter (\<lambda>e. known_level (Level e)) es))"
  by (induction es) (auto simp: level_count_def known_level_def)

lemma length_filter_eq_iff:
  "length (filter P xs) = length xs \<longleftrightarrow> (\<forall>x\<in>set xs. P x)"
proof (induction xs)
  case Nil
  then show ?case by simp
next
  case (Cons x xs)
  have "length (filter P xs) \<le> length xs" by simp
  then have "length (filter P xs) \<noteq> Suc (length xs)" by linarith
  with Cons show ?case by (cases "P x") simp_all
qed

text \<open>
  C7. In the statistics the four level counts add up to at most the total, and to
  exactly the total when, and only when, every entry has one of the four known levels.
\<close>

theorem level_counts_le_total:
  "ErrorCount (showStats la) + WarnCount (showStats la) + InfoCount (showStats la)
     + DebugCount (showStats la) \<le> TotalLines (showStats la)
   \<and> (ErrorCount (showStats la) + WarnCount (showStats la) + InfoCount (showStats la)
        + DebugCount (showStats la) = TotalLines (showStats la)
      \<longleftrightarrow> (\<forall>e\<in>set (entries la). known_level (Level e)))"
proof -
  have le: "length (filter (\<lambda>e. known_level (Level e)) (entries la)) \<le> length (entries la)"
    by simp
  show ?thesis
    using le length_filter_eq_iff [of "\<lambda>e. known_level (Level e)" "entries la"]
    by (simp add: showStats_counts level_counts_sum)
qed

theorem level_counts_le_total_witness:
  "\<not> (\<forall>e\<in>set (entries two_entries). known_level (Level e))
   \<and> ErrorCount (showStats two_entries) + WarnCount (showStats two_entries)
      + InfoCount (showStats two_entries) + DebugCount (showStats two_entries)
      < TotalLines (showStats two_entries)"
proof -
  have n: "\<not> (\<forall>e\<in>set (entries two_entries). known_level (Level e))"
    by (simp add: two_entries_def sample_entry_def known_level_def)
  show ?thesis
    using n level_counts_le_total [of two_entries] by linarith
qed

section \<open>Level inference\<close>

lemma HasPrefix_iff: "HasPrefix s p \<longleftrightarrow> prefix p s"
  unfolding HasPrefix_def prefix_def
proof
  assume "length p \<le> length s \<and> take (length p) s = p"
  then have "s = p @ drop (length p) s" by (metis append_take_drop_id)
  then show "\<exists>zs. s = p @ zs" ..
next
  assume "\<exists>zs. s = p @ zs"
  then show "length p \<le> length s \<and> take (length p) s = p" by auto
qed

lemma Contains_iff_sublist: "Contains s sub \<longleftrightarrow> sublist sub s"
  by (induction s) (simp_all add: HasPrefix_iff sublist_Cons_right)

lemma byte_char_of: "n < 256 \<Longrightarrow> byte (char_of n) = n"
  by (simp add: byte_def)

lemma char_of_byte: "char_of (byte c) = c"
  by (simp add: byte_def)

lemma upper_byte_cases:
  "upper_byte c = c \<or> (97 \<le> byte c \<and> byte c \<le> 122 \<and> byte (upper_byte c) = byte c - 32)"
proof (cases "97 \<le> byte c \<and> byte c \<le> 122")
  case True
  then have "byte c - 32 < 256" by linarith
  then have "byte (char_of (byte c - 32)) = byte c - 32" by (rule byte_char_of)
  moreover have "upper_byte c = char_of (byte c - 32)"
    unfolding upper_byte_def using True by (rule if_P)
  ultimately show ?thesis using True by simp
next
  case False
  then have "upper_byte c = c" unfolding upper_byte_def by (rule if_not_P)
  then show ?thesis by simp
qed

lemma lower_byte_cases:
  "lower_byte c = c \<or> (65 \<le> byte c \<and> byte c \<le> 90 \<and> byte (lower_byte c) = byte c + 32)"
proof (cases "65 \<le> byte c \<and> byte c \<le> 90")
  case True
  then have "byte c + 32 < 256" by linarith
  then have "byte (char_of (byte c + 32)) = byte c + 32" by (rule byte_char_of)
  moreover have "lower_byte c = char_of (byte c + 32)"
    unfolding lower_byte_def using True by (rule if_P)
  ultimately show ?thesis using True by simp
next
  case False
  then have "lower_byte c = c" unfolding lower_byte_def by (rule if_not_P)
  then show ?thesis by simp
qed

lemma upper_upper: "upper_byte (upper_byte c) = upper_byte c"
proof -
  from upper_byte_cases [of c] show ?thesis
  proof
    assume "upper_byte c = c"
    then show ?thesis by simp
  next
    assume a: "97 \<le> byte c \<and> byte c \<le> 122 \<and> byte (upper_byte c) = byte c - 32"
    then have "\<not> (97 \<le> byte (upper_byte c) \<and> byte (upper_byte c) \<le> 122)" by linarith
    then show ?thesis unfolding upper_byte_def [of "upper_byte c"] by (rule if_not_P)
  qed
qed

lemma upper_lower: "upper_byte (lower_byte c) = upper_byte c"
proof -
  from lower_byte_cases [of c] show ?thesis
  proof
    assume "lower_byte c = c"
    then show ?thesis by simp
  next
    assume a: "65 \<le> byte c \<and> byte c \<le> 90 \<and> byte (lower_byte c) = byte c + 32"
    then have r: "97 \<le> byte (lower_byte c) \<and> byte (lower_byte c) \<le> 122" by linarith
    from a have n: "\<not> (97 \<le> byte c \<and> byte c \<le> 122)" by linarith
    have "upper_byte (lower_byte c) = char_of (byte (lower_byte c) - 32)"
      unfolding upper_byte_def [of "lower_byte c"] using r by (rule if_P)
    also have "byte (lower_byte c) - 32 = byte c" using a by simp
    also have "char_of (byte c) = c" by (rule char_of_byte)
    also have "c = upper_byte c" unfolding upper_byte_def using n by (rule if_not_P [symmetric])
    finally show ?thesis .
  qed
qed

lemma upper_byte_ascii: "is_ascii c \<Longrightarrow> is_ascii (upper_byte c)"
  using upper_byte_cases [of c] by (auto simp: is_ascii_def)

lemma lower_byte_ascii: "is_ascii c \<Longrightarrow> is_ascii (lower_byte c)"
  using lower_byte_cases [of c] by (auto simp: is_ascii_def)

lemma ToUpper_ascii: "list_all is_ascii m \<Longrightarrow> ToUpper table m = map upper_byte m"
  by (simp add: ToUpper_def)

lemma ToUpper_upper_ascii:
  assumes "list_all is_ascii m"
  shows "ToUpper table (map upper_byte m) = ToUpper table m"
proof -
  from assms have "list_all is_ascii (map upper_byte m)"
    by (simp add: list_all_iff upper_byte_ascii)
  with assms show ?thesis by (simp add: ToUpper_ascii upper_upper)
qed

lemma ToUpper_lower_ascii:
  assumes "list_all is_ascii m"
  shows "ToUpper table (map lower_byte m) = ToUpper table m"
proof -
  from assms have "list_all is_ascii (map lower_byte m)"
    by (simp add: list_all_iff lower_byte_ascii)
  with assms show ?thesis by (simp add: ToUpper_ascii upper_lower)
qed

text \<open>
  A stretch of ASCII bytes inside any sequence of bytes is read byte by byte: no
  encoding of a code point runs into an ASCII byte. So \<open>strings.ToUpper\<close> upper-cases
  the ASCII letters of every message, whatever else the message holds.
\<close>

lemma DecodeRune_ascii: "0 \<le> a \<Longrightarrow> a < 128 \<Longrightarrow> DecodeRune (a # ys) = (a, 1)"
  by simp

lemma accept_ge: "accept b0 b1 \<Longrightarrow> 128 \<le> b1"
  by (simp add: accept_def continuation_def split: if_splits)

lemma DecodeRune_width:
  "0 < snd (DecodeRune (b0 # bs)) \<and> snd (DecodeRune (b0 # bs)) \<le> 4"
  by simp

lemma DecodeRune_stops:
  assumes "a < 128"
  shows "snd (DecodeRune (b0 # xs @ a # ys)) \<le> Suc (length xs)"
proof -
  have n: "\<not> continuation a" "\<not> accept b0 a"
    using assms accept_ge [of b0 a] by (auto simp: continuation_def)
  consider "length xs = 0" | "length xs = 1" | "length xs = 2" | "3 \<le> length xs" by linarith
  then show ?thesis
  proof cases
    case 1
    then show ?thesis using n by simp
  next
    case 2
    then obtain x where "xs = [x]" by (cases xs) auto
    then show ?thesis using n by simp
  next
    case 3
    then obtain x y where "xs = [x, y]" by (cases xs; cases "tl xs") auto
    then show ?thesis using n by simp
  next
    case 4
    with DecodeRune_width [of b0 "xs @ a # ys"] show ?thesis by linarith
  qed
qed

lemma runes_ascii_split:
  assumes "0 \<le> a" "a < 128"
  shows "\<exists>rs. runes (xs @ a # ys) = rs @ a # runes ys"
proof (induction "length xs" arbitrary: xs rule: less_induct)
  case less
  show ?case
  proof (cases xs)
    case Nil
    have "runes (a # ys) = fst (DecodeRune (a # ys)) # runes (drop (snd (DecodeRune (a # ys))) (a # ys))"
      by (subst runes.simps) (simp only: list.simps if_False)
    also have "DecodeRune (a # ys) = (a, 1)" using assms by (rule DecodeRune_ascii)
    finally have "runes (a # ys) = a # runes ys" by simp
    with Nil show ?thesis by simp
  next
    case (Cons b0 xs')
    define n where "n = snd (DecodeRune (b0 # xs' @ a # ys))"
    have n1: "0 < n" unfolding n_def using DecodeRune_width by blast
    have n2: "n \<le> Suc (length xs')" unfolding n_def using assms(2) by (rule DecodeRune_stops)
    have d: "drop n (b0 # xs' @ a # ys) = drop n (b0 # xs') @ a # ys"
      using n2 by (simp add: drop_Cons split: nat.split)
    have "length (drop n (b0 # xs')) < length xs" using Cons n1 by simp
    from less [OF this] obtain rs where
      rs: "runes (drop n (b0 # xs') @ a # ys) = rs @ a # runes ys" by blast
    have "runes (b0 # xs' @ a # ys)
          = fst (DecodeRune (b0 # xs' @ a # ys)) # runes (drop n (b0 # xs' @ a # ys))"
      unfolding n_def by (subst runes.simps) (simp only: list.simps if_False)
    then have "runes (xs @ a # ys) = (fst (DecodeRune (b0 # xs' @ a # ys)) # rs) @ a # runes ys"
      unfolding Cons by (simp only: d rs append_Cons)
    then show ?thesis ..
  qed
qed

lemma runes_ascii_prefix:
  "list_all (\<lambda>a. 0 \<le> a \<and> a < 128) w \<Longrightarrow> runes (w @ ys) = w @ runes ys"
proof (induction w)
  case Nil
  show ?case by simp
next
  case (Cons a w)
  have "runes (a # w @ ys)
        = fst (DecodeRune (a # w @ ys)) # runes (drop (snd (DecodeRune (a # w @ ys))) (a # w @ ys))"
    by (subst runes.simps) (simp only: list.simps if_False)
  also have "DecodeRune (a # w @ ys) = (a, 1)" using Cons.prems by (intro DecodeRune_ascii) simp_all
  finally have "runes (a # w @ ys) = a # runes (w @ ys)" by simp
  with Cons show ?case by simp
qed

lemma runes_ascii_middle:
  assumes "list_all (\<lambda>a. 0 \<le> a \<and> a < 128) w" "w \<noteq> []"
  shows "\<exists>rs. runes (xs @ w @ ys) = rs @ w @ runes ys"
proof -
  from assms(2) obtain a w' where w: "w = a # w'" by (cases w) auto
  with assms(1) have a: "0 \<le> a" "a < 128" and w': "list_all (\<lambda>a. 0 \<le> a \<and> a < 128) w'"
    by simp_all
  from runes_ascii_split [OF a, of xs "w' @ ys"] obtain rs where
    "runes (xs @ a # w' @ ys) = rs @ a # runes (w' @ ys)" by blast
  with runes_ascii_prefix [OF w', of ys] w show ?thesis by simp
qed

lemma of_char_int: "(of_char c :: int) = int (byte c)"
  unfolding byte_def by (rule of_nat_of_char [symmetric])

lemma upper_rune_ascii:
  assumes "is_ascii c"
  shows "map char_of (if unicode_ToUpper table (of_char c) < 0 then []
           else EncodeRune (unicode_ToUpper table (of_char c))) = [upper_byte c]"
proof -
  from assms have b: "byte c < 128" by (simp add: is_ascii_def)
  show ?thesis
  proof (cases "97 \<le> byte c \<and> byte c \<le> 122")
    case True
    then have u: "unicode_ToUpper table (of_char c) = int (byte c - 32)"
      by (simp add: unicode_ToUpper_def of_char_int)
    have "upper_byte c = char_of (byte c - 32)"
      unfolding upper_byte_def using True by (rule if_P)
    moreover have "(char_of (int (byte c - 32)) :: char) = char_of (byte c - 32)"
      by (rule char_of_nat)
    moreover have "int (byte c - 32) < 128" using b by linarith
    ultimately show ?thesis unfolding u by (simp add: EncodeRune_def)
  next
    case False
    then have u: "unicode_ToUpper table (of_char c) = int (byte c)"
      using b by (auto simp: unicode_ToUpper_def of_char_int)
    have "upper_byte c = c" unfolding upper_byte_def using False by (rule if_not_P)
    moreover have "(char_of (int (byte c)) :: char) = c" by (simp add: byte_def)
    moreover have "int (byte c) < 128" using b by linarith
    ultimately show ?thesis unfolding u by (simp add: EncodeRune_def)
  qed
qed

lemma upper_byte_ascii_iff: "is_ascii (upper_byte c) \<longleftrightarrow> is_ascii c"
  using upper_byte_cases [of c] by (auto simp: is_ascii_def)

lemma Map_upper_ascii:
  "list_all is_ascii w \<Longrightarrow>
   map char_of (concat (map (\<lambda>r. if unicode_ToUpper table r < 0 then []
                                 else EncodeRune (unicode_ToUpper table r)) (map of_char w)))
   = map upper_byte w"
proof (induction w)
  case Nil
  show ?case by simp
next
  case (Cons c w)
  then have "is_ascii c" by simp
  from upper_rune_ascii [OF this, of table] Cons show ?case by simp
qed

lemma Map_keeps_ascii:
  assumes "list_all is_ascii w" "w \<noteq> []"
  shows "sublist (map upper_byte w) (Map (unicode_ToUpper table) (pre @ w @ post))"
proof -
  have "list_all (\<lambda>a. 0 \<le> a \<and> a < 128) (map of_char w :: int list)"
    using assms(1) by (simp add: list_all_iff is_ascii_def of_char_int)
  moreover have "map of_char w \<noteq> ([] :: int list)" using assms(2) by simp
  ultimately obtain rs where
    "runes (map of_char pre @ map of_char w @ map of_char post)
     = rs @ map of_char w @ runes (map of_char post)"
    using runes_ascii_middle by blast
  then have "Map (unicode_ToUpper table) (pre @ w @ post)
    = map char_of (concat (map (\<lambda>r. if unicode_ToUpper table r < 0 then []
                                 else EncodeRune (unicode_ToUpper table r)) rs))
      @ map upper_byte w
      @ map char_of (concat (map (\<lambda>r. if unicode_ToUpper table r < 0 then []
                                 else EncodeRune (unicode_ToUpper table r))
                              (runes (map of_char post))))"
    using Map_upper_ascii [OF assms(1), of table] by (simp add: Map_def)
  then show ?thesis unfolding sublist_def by blast
qed

lemma ToUpper_finds:
  assumes "list_all is_ascii k" "sublist k (map upper_byte m)"
  shows "sublist k (ToUpper table m)"
proof (cases "list_all is_ascii m")
  case True
  with assms(2) show ?thesis by (simp add: ToUpper_def)
next
  case False
  from assms(2) obtain ps ss where "map upper_byte m = ps @ k @ ss"
    unfolding sublist_def by blast
  then obtain pre r where r: "m = pre @ r" "k @ ss = map upper_byte r"
    unfolding map_eq_append_conv by blast
  from r(2) obtain w post where p: "r = w @ post" "k = map upper_byte w"
    unfolding append_eq_map_conv by blast
  from r(1) p(1) have m: "m = pre @ w @ post" by simp
  from p(2) have w: "map upper_byte w = k" by simp
  from assms(1) w have a: "list_all is_ascii w"
    by (auto simp: list_all_iff upper_byte_ascii_iff)
  show ?thesis
  proof (cases "w = []")
    case True
    with w show ?thesis by simp
  next
    case n: False
    from Map_keeps_ascii [OF a n, of table pre post] False m w show ?thesis
      by (simp add: ToUpper_def)
  qed
qed

lemma inferLogLevel_cases:
  "inferLogLevel rt m =
     (if error_word (ToUpper (upper_table rt) m) then ''ERROR''
      else if warn_word (ToUpper (upper_table rt) m) then ''WARN''
      else if debug_word (ToUpper (upper_table rt) m) then ''DEBUG'' else ''INFO'')"
  by (simp add: inferLogLevel_def Let_def Contains_iff_sublist error_word_def warn_word_def
        debug_word_def)

text \<open>
  C3. \<open>inferLogLevel\<close> always returns one of the four levels. It looks at the
  message as \<open>strings.ToUpper\<close> returns it: \<open>ERROR\<close> when one of the error keywords
  occurs in it, else \<open>WARN\<close> when a warning keyword occurs, else \<open>DEBUG\<close> when a debug
  keyword occurs, else \<open>INFO\<close>. The case of the letters of a keyword does not matter:
  a keyword that the message spells with ASCII letters of either case (it occurs in
  \<open>map upper_byte m\<close>, the message with its letters a to z shifted) is found, in every
  message and for every case table. An ASCII message is upper-cased by that shift
  alone, so that changing the case of its letters does not change its level.
\<close>

theorem inferLogLevel_priority:
  "inferLogLevel rt m \<in> {''ERROR'', ''WARN'', ''INFO'', ''DEBUG''}
   \<and> (inferLogLevel rt m = ''ERROR'' \<longleftrightarrow> error_word (ToUpper (upper_table rt) m))
   \<and> (inferLogLevel rt m = ''WARN'' \<longleftrightarrow>
        \<not> error_word (ToUpper (upper_table rt) m) \<and> warn_word (ToUpper (upper_table rt) m))
   \<and> (inferLogLevel rt m = ''DEBUG'' \<longleftrightarrow>
        \<not> error_word (ToUpper (upper_table rt) m) \<and> \<not> warn_word (ToUpper (upper_table rt) m)
        \<and> debug_word (ToUpper (upper_table rt) m))
   \<and> (inferLogLevel rt m = ''INFO'' \<longleftrightarrow>
        \<not> error_word (ToUpper (upper_table rt) m) \<and> \<not> warn_word (ToUpper (upper_table rt) m)
        \<and> \<not> debug_word (ToUpper (upper_table rt) m))
   \<and> (error_word (map upper_byte m) \<longrightarrow> inferLogLevel rt m = ''ERROR'')
   \<and> (warn_word (map upper_byte m) \<longrightarrow> inferLogLevel rt m \<in> {''ERROR'', ''WARN''})
   \<and> (debug_word (map upper_byte m) \<longrightarrow> inferLogLevel rt m \<noteq> ''INFO'')
   \<and> (list_all is_ascii m \<longrightarrow>
        ToUpper (upper_table rt) m = map upper_byte m
        \<and> inferLogLevel rt (map upper_byte m) = inferLogLevel rt m
        \<and> inferLogLevel rt (map lower_byte m) = inferLogLevel rt m)"
proof -
  have c: "inferLogLevel rt x = inferLogLevel rt y"
    if "ToUpper (upper_table rt) x = ToUpper (upper_table rt) y" for x y
    using that by (simp only: inferLogLevel_cases)
  have a: "list_all is_ascii m \<longrightarrow>
        ToUpper (upper_table rt) m = map upper_byte m
        \<and> inferLogLevel rt (map upper_byte m) = inferLogLevel rt m
        \<and> inferLogLevel rt (map lower_byte m) = inferLogLevel rt m"
    using ToUpper_ascii [of m "upper_table rt"] c [OF ToUpper_upper_ascii [of m "upper_table rt"]]
      c [OF ToUpper_lower_ascii [of m "upper_table rt"]]
    by blast
  have b: "inferLogLevel rt m \<in> {''ERROR'', ''WARN'', ''INFO'', ''DEBUG''}
   \<and> (inferLogLevel rt m = ''ERROR'' \<longleftrightarrow> error_word (ToUpper (upper_table rt) m))
   \<and> (inferLogLevel rt m = ''WARN'' \<longleftrightarrow>
        \<not> error_word (ToUpper (upper_table rt) m) \<and> warn_word (ToUpper (upper_table rt) m))
   \<and> (inferLogLevel rt m = ''DEBUG'' \<longleftrightarrow>
        \<not> error_word (ToUpper (upper_table rt) m) \<and> \<not> warn_word (ToUpper (upper_table rt) m)
        \<and> debug_word (ToUpper (upper_table rt) m))
   \<and> (inferLogLevel rt m = ''INFO'' \<longleftrightarrow>
        \<not> error_word (ToUpper (upper_table rt) m) \<and> \<not> warn_word (ToUpper (upper_table rt) m)
        \<and> \<not> debug_word (ToUpper (upper_table rt) m))"
    by (simp add: inferLogLevel_cases)
  have f: "sublist k (ToUpper (upper_table rt) m)"
    if "list_all is_ascii k" "sublist k (map upper_byte m)" for k
    using that by (rule ToUpper_finds)
  have k: "list_all is_ascii ''ERROR''" "list_all is_ascii ''FATAL''"
    "list_all is_ascii ''CRITICAL''" "list_all is_ascii ''WARN''" "list_all is_ascii ''WARNING''"
    "list_all is_ascii ''DEBUG''" "list_all is_ascii ''TRACE''"
    by (simp_all add: is_ascii_def byte_def)
  have e: "error_word (map upper_byte m) \<longrightarrow> error_word (ToUpper (upper_table rt) m)"
    unfolding error_word_def using f k by blast
  have w: "warn_word (map upper_byte m) \<longrightarrow> warn_word (ToUpper (upper_table rt) m)"
    unfolding warn_word_def using f k by blast
  have d: "debug_word (map upper_byte m) \<longrightarrow> debug_word (ToUpper (upper_table rt) m)"
    unfolding debug_word_def using f k by blast
  have e': "error_word (map upper_byte m) \<longrightarrow> inferLogLevel rt m = ''ERROR''"
    using e by (simp add: inferLogLevel_cases)
  have w': "warn_word (map upper_byte m) \<longrightarrow> inferLogLevel rt m \<in> {''ERROR'', ''WARN''}"
    using w by (simp add: inferLogLevel_cases)
  have d': "debug_word (map upper_byte m) \<longrightarrow> inferLogLevel rt m \<noteq> ''INFO''"
    using d by (simp add: inferLogLevel_cases)
  from b e' w' d' a show ?thesis by (simp only: conj_assoc simp_thms)
qed

theorem inferLogLevel_priority_witness:
  "list_all is_ascii ''warn: an Error in trace''
   \<and> error_word (map upper_byte ''warn: an Error in trace'')
   \<and> warn_word (map upper_byte ''warn: an Error in trace'')
   \<and> debug_word (map upper_byte ''warn: an Error in trace'')
   \<and> inferLogLevel sample_rt ''warn: an Error in trace'' = ''ERROR''
   \<and> inferLogLevel sample_rt (map lower_byte ''warn: an Error in trace'') = ''ERROR''"
proof -
  have a: "list_all is_ascii ''warn: an Error in trace''" by code_simp
  have e: "Contains (map upper_byte ''warn: an Error in trace'') ''ERROR''" by code_simp
  have w: "Contains (map upper_byte ''warn: an Error in trace'') ''WARN''" by code_simp
  have d: "Contains (map upper_byte ''warn: an Error in trace'') ''TRACE''" by code_simp
  show ?thesis
    using a e w d inferLogLevel_priority [of sample_rt "''warn: an Error in trace''"]
    by (simp add: error_word_def warn_word_def debug_word_def Contains_iff_sublist)
qed

text \<open>
  A message that is not ASCII goes through the case table: with dotless i (U+0131)
  mapped to \<open>I\<close>, a message that spells \<open>critical\<close> with it is an error.
\<close>

lemma dotless_critical_level: "inferLogLevel dotless_rt dotless_critical = ''ERROR''"
  by code_simp

section \<open>The line parser\<close>

lemma parseJSON_Raw: "\<exists>e. parseJSON rt line = Some e \<and> Raw e = line"
  by (simp add: parseJSON_def entry_Raw_def Let_def split: option.split)

lemma parseWithPattern_Raw: "\<exists>e. parseWithPattern rt line name ms = Some e \<and> Raw e = line"
  by (simp add: parseWithPattern_def entry_Raw_def Let_def split: option.split)

lemma parseGeneric_loop_Raw: "Raw (parseGeneric_loop ps line e) = Raw e"
  by (induction ps) (simp_all add: Let_def split: option.split)

lemma parseGeneric_Raw: "\<exists>e. parseGeneric rt line = Some e \<and> Raw e = line"
  by (simp add: parseGeneric_def parseGeneric_loop_Raw entry_Raw_def Let_def)

lemma parseLine_loop_Raw: "\<exists>e. parseLine_loop la rt line names = Some e \<and> Raw e = line"
  by (induction names) (simp_all add: parseGeneric_Raw parseWithPattern_Raw split: option.split)

lemma parseLine_Raw: "\<exists>e. parseLine la rt line format = Some e \<and> Raw e = line"
  by (simp add: parseLine_def parseJSON_Raw parseLine_loop_Raw)

lemma parseGeneric_loop_find:
  "parseGeneric_loop ps line e =
     (case find (layout_parses line) ps of
        None \<Rightarrow> e
      | Some p \<Rightarrow>
          (if length line > length p + 1
           then e\<lparr>Timestamp := the (Parse p (take (length p) line)),
                  Message := TrimSpace (drop (length p + 1) line)\<rparr>
           else e\<lparr>Timestamp := the (Parse p (take (length p) line))\<rparr>))"
proof (induction ps)
  case Nil
  then show ?case by simp
next
  case (Cons p ps)
  show ?case
  proof (cases "layout_parses line p")
    case True
    then obtain t where "length p \<le> length line" "Parse p (take (length p) line) = Some t"
      by (auto simp: layout_parses_def)
    with True show ?thesis by (simp add: Let_def)
  next
    case False
    then have "parseGeneric_loop (p # ps) line e = parseGeneric_loop ps line e"
      by (auto simp: layout_parses_def split: option.split)
    with False Cons show ?thesis by simp
  qed
qed

lemma parseGeneric_eq:
  "parseGeneric rt line =
     Some (case first_layout line of
             None \<Rightarrow>
               \<lparr>Timestamp = zero_Time, Level = inferLogLevel rt line, Message = line,
                Source = [], Raw = line\<rparr>
           | Some p \<Rightarrow>
               \<lparr>Timestamp = the (Parse p (take (length p) line)),
                Level = inferLogLevel rt (rest_message line p),
                Message = rest_message line p, Source = [], Raw = line\<rparr>)"
  by (simp add: parseGeneric_def parseGeneric_loop_find first_layout_def rest_message_def
        entry_Raw_def Let_def split: option.split)

lemma parseLine_loop_no_match:
  "no_match la line names \<Longrightarrow> parseLine_loop la rt line names = parseGeneric rt line"
  by (induction names) (auto simp: no_match_def split: option.splits)

lemma parseLine_paths:
  "parseLine la rt line format =
     (if json_path line format then parseJSON rt line
      else parseLine_loop la rt line (pattern_names format))"
  by (simp add: parseLine_def json_path_def pattern_names_def)

lemma parseJSON_fails:
  "json_Unmarshal rt line = None \<Longrightarrow>
     parseJSON rt line =
       Some \<lparr>Timestamp = zero_Time, Level = [], Message = line, Source = [], Raw = line\<rparr>"
  by (simp add: parseJSON_def entry_Raw_def)

text \<open>
  C1, as the code has it. For every line and every format \<open>parseLine\<close> returns a
  record, never \<open>nil\<close>, whose \<open>Raw\<close> is the line. When the line goes to the JSON
  parser and decoding fails, the message is the line and every other field is empty.
  When it goes to the patterns, none matches and no layout of the fallback parser
  parses, the message is the line, the timestamp is unset, the source is empty and the
  level is the one inferred from the line.
\<close>

theorem parseLine_never_fails:
  "(\<exists>e. parseLine la rt line format = Some e \<and> Raw e = line)
   \<and> (json_path line format \<and> json_Unmarshal rt line = None \<longrightarrow>
        parseLine la rt line format =
          Some \<lparr>Timestamp = zero_Time, Level = [], Message = line, Source = [], Raw = line\<rparr>)
   \<and> (\<not> json_path line format \<and> no_match la line (pattern_names format)
        \<and> first_layout line = None \<longrightarrow>
        parseLine la rt line format =
          Some \<lparr>Timestamp = zero_Time, Level = inferLogLevel rt line, Message = line,
                Source = [], Raw = line\<rparr>)"
  using parseLine_Raw [of la rt line format]
  by (simp add: parseLine_paths parseJSON_fails parseLine_loop_no_match parseGeneric_eq)

theorem parseLine_never_fails_witness:
  "json_path ''{broken'' ''auto'' \<and> json_Unmarshal sample_rt ''{broken'' = None
   \<and> parseLine NewLogAnalyzer sample_rt ''{broken'' ''auto'' =
       Some \<lparr>Timestamp = zero_Time, Level = [], Message = ''{broken'', Source = [],
             Raw = ''{broken''\<rparr>
   \<and> \<not> json_path ''all good'' ''auto''
   \<and> no_match NewLogAnalyzer ''all good'' (pattern_names ''auto'')
   \<and> first_layout ''all good'' = None
   \<and> parseLine NewLogAnalyzer sample_rt ''all good'' ''auto'' =
       Some \<lparr>Timestamp = zero_Time, Level = ''INFO'', Message = ''all good'', Source = [],
             Raw = ''all good''\<rparr>"
proof -
  have a: "json_path ''{broken'' ''auto''" by code_simp
  have b: "json_Unmarshal sample_rt ''{broken'' = None" by code_simp
  have c: "\<not> json_path ''all good'' ''auto''" by code_simp
  have d: "no_match NewLogAnalyzer ''all good'' (pattern_names ''auto'')" by code_simp
  have e: "first_layout ''all good'' = None" by code_simp
  have f: "inferLogLevel sample_rt ''all good'' = ''INFO''" by code_simp
  show ?thesis
    using a b c d e f
      parseLine_never_fails [of NewLogAnalyzer sample_rt "''{broken''" "''auto''"]
      parseLine_never_fails [of NewLogAnalyzer sample_rt "''all good''" "''auto''"]
    by simp
qed

text \<open>
  C1 as stated fails: on \<open>disk error\<close> no pattern matches and the line is not JSON,
  yet the level is \<open>ERROR\<close>, neither empty nor the default; on
  \<open>2024-01-01 10:00:00 disk full\<close> no pattern matches either, yet the message is not
  the line and the timestamp is set.
\<close>

theorem worst_case_fields_counterexample:
  "\<not> json_path ''disk error'' ''auto''
   \<and> no_match NewLogAnalyzer ''disk error'' (pattern_names ''auto'')
   \<and> json_Unmarshal sample_rt ''disk error'' = None
   \<and> parseLine NewLogAnalyzer sample_rt ''disk error'' ''auto'' =
       Some \<lparr>Timestamp = zero_Time, Level = ''ERROR'', Message = ''disk error'', Source = [],
             Raw = ''disk error''\<rparr>
   \<and> \<not> json_path ''2024-01-01 10:00:00 disk full'' ''auto''
   \<and> no_match NewLogAnalyzer ''2024-01-01 10:00:00 disk full'' (pattern_names ''auto'')
   \<and> json_Unmarshal sample_rt ''2024-01-01 10:00:00 disk full'' = None
   \<and> parseLine NewLogAnalyzer sample_rt ''2024-01-01 10:00:00 disk full'' ''auto'' =
       Some \<lparr>Timestamp = \<lparr>Year = 2024, Month = 1, Day = 1, Hour = 10, Minute = 0, Second = 0,
                          Nanosecond = 0, Offset = 0\<rparr>,
             Level = ''INFO'', Message = ''disk full'', Source = [],
             Raw = ''2024-01-01 10:00:00 disk full''\<rparr>"
proof -
  have a: "\<not> json_path ''disk error'' ''auto''" by code_simp
  have b: "no_match NewLogAnalyzer ''disk error'' (pattern_names ''auto'')" by code_simp
  have c: "json_Unmarshal sample_rt ''disk error'' = None" by code_simp
  have d: "parseLine NewLogAnalyzer sample_rt ''disk error'' ''auto'' =
       Some \<lparr>Timestamp = zero_Time, Level = ''ERROR'', Message = ''disk error'', Source = [],
             Raw = ''disk error''\<rparr>" by code_simp
  have e: "\<not> json_path ''2024-01-01 10:00:00 disk full'' ''auto''" by code_simp
  have f: "no_match NewLogAnalyzer ''2024-01-01 10:00:00 disk full'' (pattern_names ''auto'')"
    by code_simp
  have g: "json_Unmarshal sample_rt ''2024-01-01 10:00:00 disk full'' = None" by code_simp
  have h: "parseLine NewLogAnalyzer sample_rt ''2024-01-01 10:00:00 disk full'' ''auto'' =
       Some \<lparr>Timestamp = \<lparr>Year = 2024, Month = 1, Day = 1, Hour = 10, Minute = 0, Second = 0,
                          Nanosecond = 0, Offset = 0\<rparr>,
             Level = ''INFO'', Message = ''disk full'', Source = [],
             Raw = ''2024-01-01 10:00:00 disk full''\<rparr>" by code_simp
  from a b c d e f g h show ?thesis by blast
qed

lemma patterns_New:
  "patterns NewLogAnalyzer ''generic'' = Some generic_re"
  "patterns NewLogAnalyzer ''syslog'' = Some syslog_re"
  "patterns NewLogAnalyzer ''apache'' = Some apache_re"
  "patterns NewLogAnalyzer ''nginx'' = Some nginx_re"
  by (simp_all add: NewLogAnalyzer_def logPatterns_def)

text \<open>
  C4. With the format \<open>json\<close>, or with \<open>auto\<close> on a line whose trimmed text starts
  with an opening brace, \<open>parseLine\<close> is \<open>parseJSON\<close>. Otherwise, with \<open>auto\<close>, the
  patterns generic, syslog, apache and nginx are tried in this order, the first that
  matches decides and \<open>parseWithPattern\<close> builds the record from its groups; when none
  matches the record is that of \<open>parseGeneric\<close>.
\<close>

theorem parseLine_dispatch:
  assumes "patterns la = patterns NewLogAnalyzer"
  shows "(format = ''json'' \<or> (format = ''auto'' \<and> HasPrefix (TrimSpace line) ''{'')
            \<longrightarrow> parseLine la rt line format = parseJSON rt line)
       \<and> (format = ''auto'' \<and> \<not> HasPrefix (TrimSpace line) ''{''
            \<longrightarrow> parseLine la rt line format =
                (case FindStringSubmatch generic_re line of
                   Some ms \<Rightarrow> parseWithPattern rt line ''generic'' ms
                 | None \<Rightarrow>
                (case FindStringSubmatch syslog_re line of
                   Some ms \<Rightarrow> parseWithPattern rt line ''syslog'' ms
                 | None \<Rightarrow>
                (case FindStringSubmatch apache_re line of
                   Some ms \<Rightarrow> parseWithPattern rt line ''apache'' ms
                 | None \<Rightarrow>
                (case FindStringSubmatch nginx_re line of
                   Some ms \<Rightarrow> parseWithPattern rt line ''nginx'' ms
                 | None \<Rightarrow> parseGeneric rt line)))))"
  using assms
  by (simp add: parseLine_def patterns_New split: option.splits)

theorem parseLine_dispatch_witness:
  "patterns NewLogAnalyzer = patterns NewLogAnalyzer
   \<and> HasPrefix (TrimSpace ''  {broken'') ''{''
   \<and> parseLine NewLogAnalyzer sample_rt ''  {broken'' ''auto'' = parseJSON sample_rt ''  {broken''
   \<and> \<not> HasPrefix (TrimSpace syslog_line) ''{''
   \<and> FindStringSubmatch generic_re syslog_line = None
   \<and> FindStringSubmatch syslog_re syslog_line = Some syslog_matches
   \<and> parseLine NewLogAnalyzer sample_rt syslog_line ''auto''
       = parseWithPattern sample_rt syslog_line ''syslog'' syslog_matches"
proof -
  have a: "HasPrefix (TrimSpace ''  {broken'') ''{''" by code_simp
  have b: "\<not> HasPrefix (TrimSpace syslog_line) ''{''" by code_simp
  have c: "FindStringSubmatch generic_re syslog_line = None" by code_simp
  have d: "FindStringSubmatch syslog_re syslog_line = Some syslog_matches" by code_simp
  show ?thesis
    using a b c d
      parseLine_dispatch [OF refl, of "''auto''" "''  {broken''" sample_rt]
      parseLine_dispatch [OF refl, of "''auto''" syslog_line sample_rt]
    by simp
qed

text \<open>
  C9, as the code has it. \<open>parseGeneric\<close> takes the first of its four layouts that
  parses on the first bytes of the line, as many as the layout text has. Its time is
  the timestamp; the message is the text after those bytes and one more, trimmed of
  white space, when the line is longer than that, and the whole line otherwise. When
  no layout parses, the message is the line and the timestamp is unset. The level is
  always inferred from the message.
\<close>

theorem parseGeneric_layouts:
  "parseGeneric rt line =
     Some (case first_layout line of
             None \<Rightarrow>
               \<lparr>Timestamp = zero_Time, Level = inferLogLevel rt line, Message = line,
                Source = [], Raw = line\<rparr>
           | Some p \<Rightarrow>
               \<lparr>Timestamp = the (Parse p (take (length p) line)),
                Level = inferLogLevel rt (rest_message line p),
                Message = rest_message line p, Source = [], Raw = line\<rparr>)
   \<and> (case first_layout line of
        None \<Rightarrow> list_all (\<lambda>p. \<not> layout_parses line p) timePatterns
      | Some p \<Rightarrow> p \<in> set timePatterns \<and> layout_parses line p
                  \<and> list_all (\<lambda>q. \<not> layout_parses line q)
                       (takeWhile (\<lambda>q. q \<noteq> p) timePatterns))"
proof -
  have "case find P xs of
          None \<Rightarrow> list_all (\<lambda>p. \<not> P p) xs
        | Some p \<Rightarrow> p \<in> set xs \<and> P p \<and> list_all (\<lambda>q. \<not> P q) (takeWhile (\<lambda>q. q \<noteq> p) xs)"
    for P :: "string \<Rightarrow> bool" and xs
    by (induction xs) (auto split: option.splits)
  from this [of "layout_parses line" timePatterns] show ?thesis
    by (simp add: parseGeneric_eq first_layout_def)
qed

theorem parseGeneric_layouts_witness:
  "first_layout ''2024/01/01 10:00:00 low disk warning'' = Some ''2006/01/02 15:04:05''
   \<and> parseGeneric sample_rt ''2024/01/01 10:00:00 low disk warning'' =
       Some \<lparr>Timestamp = \<lparr>Year = 2024, Month = 1, Day = 1, Hour = 10, Minute = 0, Second = 0,
                          Nanosecond = 0, Offset = 0\<rparr>,
             Level = ''WARN'', Message = ''low disk warning'', Source = [],
             Raw = ''2024/01/01 10:00:00 low disk warning''\<rparr>
   \<and> \<not> layout_parses ''2024/01/01 10:00:00 low disk warning'' ''2006-01-02 15:04:05''"
proof -
  let ?l = "''2024/01/01 10:00:00 low disk warning''"
  have a: "first_layout ?l = Some ''2006/01/02 15:04:05''" by code_simp
  have b: "the (Parse ''2006/01/02 15:04:05'' (take (length ''2006/01/02 15:04:05'') ?l)) =
       \<lparr>Year = 2024, Month = 1, Day = 1, Hour = 10, Minute = 0, Second = 0,
        Nanosecond = 0, Offset = 0\<rparr>" by code_simp
  have c: "rest_message ?l ''2006/01/02 15:04:05'' = ''low disk warning''" by code_simp
  have d: "inferLogLevel sample_rt ''low disk warning'' = ''WARN''" by code_simp
  have e: "takeWhile (\<lambda>q. q \<noteq> ''2006/01/02 15:04:05'') timePatterns = [''2006-01-02 15:04:05'']"
    by (simp add: timePatterns_def)
  from parseGeneric_layouts [of sample_rt ?l] show ?thesis
    unfolding a option.case b c d e by simp
qed

text \<open>
  C9 as stated fails: on a line that is exactly a timestamp the message is the whole
  line, not the empty remainder; and the remainder is trimmed of white space.
\<close>

theorem remainder_message_counterexample:
  "first_layout ''2024-01-01 10:00:00'' = Some ''2006-01-02 15:04:05''
   \<and> parseGeneric sample_rt ''2024-01-01 10:00:00'' =
       Some \<lparr>Timestamp = \<lparr>Year = 2024, Month = 1, Day = 1, Hour = 10, Minute = 0, Second = 0,
                          Nanosecond = 0, Offset = 0\<rparr>,
             Level = ''INFO'', Message = ''2024-01-01 10:00:00'', Source = [],
             Raw = ''2024-01-01 10:00:00''\<rparr>
   \<and> drop (length ''2006-01-02 15:04:05'' + 1) ''2024-01-01 10:00:00'' = []
   \<and> first_layout ''2024-01-01 10:00:00   disk full  '' = Some ''2006-01-02 15:04:05''
   \<and> parseGeneric sample_rt ''2024-01-01 10:00:00   disk full  '' =
       Some \<lparr>Timestamp = \<lparr>Year = 2024, Month = 1, Day = 1, Hour = 10, Minute = 0, Second = 0,
                          Nanosecond = 0, Offset = 0\<rparr>,
             Level = ''INFO'', Message = ''disk full'', Source = [],
             Raw = ''2024-01-01 10:00:00   disk full  ''\<rparr>
   \<and> drop (length ''2006-01-02 15:04:05'' + 1) ''2024-01-01 10:00:00   disk full  ''
       = ''  disk full  ''"
proof -
  have a: "first_layout ''2024-01-01 10:00:00'' = Some ''2006-01-02 15:04:05''" by code_simp
  have b: "parseGeneric sample_rt ''2024-01-01 10:00:00'' =
       Some \<lparr>Timestamp = \<lparr>Year = 2024, Month = 1, Day = 1, Hour = 10, Minute = 0, Second = 0,
                          Nanosecond = 0, Offset = 0\<rparr>,
             Level = ''INFO'', Message = ''2024-01-01 10:00:00'', Source = [],
             Raw = ''2024-01-01 10:00:00''\<rparr>" by code_simp
  have c: "drop (length ''2006-01-02 15:04:05'' + 1) ''2024-01-01 10:00:00'' = []" by simp
  have d: "first_layout ''2024-01-01 10:00:00   disk full  '' = Some ''2006-01-02 15:04:05''"
    by code_simp
  have e: "parseGeneric sample_rt ''2024-01-01 10:00:00   disk full  '' =
       Some \<lparr>Timestamp = \<lparr>Year = 2024, Month = 1, Day = 1, Hour = 10, Minute = 0, Second = 0,
                          Nanosecond = 0, Offset = 0\<rparr>,
             Level = ''INFO'', Message = ''disk full'', Source = [],
             Raw = ''2024-01-01 10:00:00   disk full  ''\<rparr>" by code_simp
  have f: "drop (length ''2006-01-02 15:04:05'' + 1) ''2024-01-01 10:00:00   disk full  ''
       = ''  disk full  ''" by simp
  from a b c d e f show ?thesis by blast
qed

text \<open>The model on three sample lines: a generic line, a JSON object, an access log line.\<close>

lemma generic_sample:
  "parseLine NewLogAnalyzer sample_rt ''2024-01-01 10:00:00 [INFO] Application started'' ''auto'' =
     Some \<lparr>Timestamp = \<lparr>Year = 2024, Month = 1, Day = 1, Hour = 10, Minute = 0, Second = 0,
                        Nanosecond = 0, Offset = 0\<rparr>,
           Level = ''INFO'', Message = ''Application started'', Source = [],
           Raw = ''2024-01-01 10:00:00 [INFO] Application started''\<rparr>"
  by code_simp

lemma json_sample:
  "parseLine NewLogAnalyzer sample_rt sample_json ''auto'' =
     Some \<lparr>Timestamp = \<lparr>Year = 2024, Month = 1, Day = 1, Hour = 10, Minute = 0, Second = 0,
                        Nanosecond = 0, Offset = 0\<rparr>,
           Level = ''ERROR'', Message = ''boom'', Source = ''db'', Raw = sample_json\<rparr>"
  by code_simp

lemma apache_sample:
  "parseLine NewLogAnalyzer sample_rt apache_line ''auto'' =
     Some \<lparr>Timestamp = \<lparr>Year = 2023, Month = 10, Day = 10, Hour = 13, Minute = 55,
                        Second = 36, Nanosecond = 0, Offset = - 25200\<rparr>,
           Level = ''INFO'', Message = ''GET /index.html'', Source = ''127.0.0.1'',
           Raw = apache_line\<rparr>"
  by code_simp

section \<open>The syslog timestamp\<close>

lemma digit_range: "is_digit c \<Longrightarrow> 0 \<le> digit c \<and> digit c \<le> 9"
  by (auto simp: is_digit_def digit_def)

lemma digits_value_snoc: "digits_value (s @ [c]) = digits_value s * 10 + digit c"
  by (simp add: digits_value_def)

lemma digits_value_bound:
  "list_all is_digit s \<Longrightarrow> 0 \<le> digits_value s \<and> digits_value s < 10 ^ length s"
proof (induction s rule: rev_induct)
  case Nil
  then show ?case by (simp add: digits_value_def)
next
  case (snoc c s)
  then have ih: "0 \<le> digits_value s \<and> digits_value s < 10 ^ length s" and d: "is_digit c"
    by simp_all
  from digit_range [OF d] ih show ?case
    by (simp add: digits_value_snoc)
qed

lemma take_takeWhile: "n \<le> length (takeWhile P xs) \<Longrightarrow> take n xs = take n (takeWhile P xs)"
proof -
  assume n: "n \<le> length (takeWhile P xs)"
  have "take n xs = take n (takeWhile P xs @ dropWhile P xs)" by simp
  also have "\<dots> = take n (takeWhile P xs)" using n by (simp del: takeWhile_dropWhile_id)
  finally show ?thesis .
qed

lemma list_all_take_takeWhile: "list_all P (take n (takeWhile P xs))"
proof -
  have "set (take n (takeWhile P xs)) \<subseteq> set (takeWhile P xs)" by (rule set_take_subset)
  moreover have "\<forall>x\<in>set (takeWhile P xs). P x" by (auto dest: set_takeWhileD)
  ultimately show ?thesis by (auto simp: list_all_iff)
qed

lemma fraction_digits:
  assumes "2 \<le> length r" "isDigit r 1" "k = 2 + length (takeWhile is_digit (drop 2 r))"
  shows "list_all is_digit (take (min k 10 - 1) (drop 1 r))"
proof -
  from assms(1) have "Suc 0 < length r" by simp
  then have "drop (Suc 0) r = r ! Suc 0 # drop (Suc (Suc 0)) r" by (rule Cons_nth_drop_Suc [symmetric])
  then have d1: "drop 1 r = r ! 1 # drop 2 r" by (simp add: numeral_2_eq_2)
  from assms(3) obtain j where j: "min k 10 - 1 = Suc j" "j \<le> length (takeWhile is_digit (drop 2 r))"
    by (cases "k \<le> 10") (auto simp: min_def)
  have h: "is_digit (r ! 1)" using assms by (simp add: isDigit_def)
  have "take (Suc j) (drop 1 r) = r ! 1 # take j (takeWhile is_digit (drop 2 r))"
    unfolding d1 using take_takeWhile [OF j(2)] by simp
  then show ?thesis
    unfolding j(1) using h list_all_take_takeWhile [of is_digit j "drop 2 r"] by simp
qed

lemma parseNanoseconds_bound:
  assumes "2 \<le> length r" "isDigit r 1" "k = 2 + length (takeWhile is_digit (drop 2 r))"
  shows "0 \<le> parseNanoseconds r k \<and> parseNanoseconds r k < 1000000000"
proof -
  define n where "n = min k 10"
  define ds where "ds = take (n - 1) (drop 1 r)"
  have n2: "2 \<le> n" "n \<le> 10" using assms(3) by (auto simp: n_def)
  have "k \<le> length r"
    using assms(1,3) length_takeWhile_le [of is_digit "drop 2 r"] by simp
  then have len: "length ds = n - 1" using n2 by (auto simp: ds_def n_def)
  have "list_all is_digit ds" using fraction_digits [OF assms] by (simp add: ds_def n_def)
  from digits_value_bound [OF this] len
  have b: "0 \<le> digits_value ds" "digits_value ds < 10 ^ (n - 1)" by simp_all
  have "digits_value ds * 10 ^ (10 - n) < 10 ^ (n - 1) * (10::int) ^ (10 - n)"
    using b(2) by simp
  also have "\<dots> = 10 ^ (n - 1 + (10 - n))" by (simp add: power_add)
  also have "n - 1 + (10 - n) = 9" using n2 by simp
  finally have "digits_value ds * 10 ^ (10 - n) < 1000000000" by simp
  moreover have "0 \<le> digits_value ds * 10 ^ (10 - n)" using b(1) by simp
  ultimately show ?thesis
    by (simp add: parseNanoseconds_def Let_def ds_def n_def)
qed

lemma getnum_nonneg: "getnum s fixed = Some (n, r) \<Longrightarrow> 0 \<le> n"
  by (auto simp: getnum_def isDigit_def digit_def is_digit_def split: if_splits)

lemma lookup_range: "lookup tab v i = Some (k, r) \<Longrightarrow> int i \<le> k \<and> k < int i + int (length tab)"
proof (induction tab arbitrary: i)
  case Nil
  then show ?case by simp
next
  case (Cons a tab)
  show ?case
  proof (cases "length a \<le> length v \<and> match (take (length a) v) a")
    case True
    with Cons.prems show ?thesis by simp
  next
    case False
    with Cons.prems have "lookup tab v (Suc i) = Some (k, r)" by auto
    from Cons.IH [OF this] show ?thesis by simp
  qed
qed

lemma parse_std_valid:
  assumes "parse_std sd st v = Some (st', r)" "pvalid st"
  shows "pvalid st'"
proof (cases sd)
  case stdMonth
  with assms obtain i where "lookup shortMonthNames v 0 = Some (i, r)" "st' = st\<lparr>p_month := i + 1\<rparr>"
    by (auto split: option.splits)
  with lookup_range [of shortMonthNames v 0 i r] assms(2) show ?thesis
    by (simp add: pvalid_def shortMonthNames_def)
next
  case stdZeroSecond
  with assms obtain n r0 where g: "getnum v True = Some (n, r0)" and n: "\<not> (n < 0 \<or> 60 \<le> n)"
    by (auto split: option.splits if_splits)
  show ?thesis
  proof (cases "2 \<le> length r0 \<and> commaOrPeriod (r0 ! 0) \<and> isDigit r0 1")
    case True
    then have b: "0 \<le> parseNanoseconds r0 (2 + length (takeWhile is_digit (drop 2 r0)))
        \<and> parseNanoseconds r0 (2 + length (takeWhile is_digit (drop 2 r0))) < 1000000000"
      by (intro parseNanoseconds_bound) simp_all
    from assms stdZeroSecond g n True
    have "st' = st\<lparr>p_sec := n, p_nsec := parseNanoseconds r0 (2 + length (takeWhile is_digit (drop 2 r0)))\<rparr>"
      by (simp add: Let_def)
    with b n assms(2) show ?thesis by (simp add: pvalid_def)
  next
    case False
    with assms stdZeroSecond g n have "st' = st\<lparr>p_sec := n\<rparr>" by auto
    with n assms(2) show ?thesis by (simp add: pvalid_def)
  qed
qed (use assms in \<open>auto simp: pvalid_def split: option.splits if_splits\<close>)

lemma parse_std_year:
  assumes "parse_std sd st v = Some (st', r)" "sd \<noteq> stdLongYear"
  shows "p_year st' = p_year st"
proof (cases sd)
  case stdZeroSecond
  with assms obtain n r0 where g: "getnum v True = Some (n, r0)" and n: "\<not> (n < 0 \<or> 60 \<le> n)"
    by (auto split: option.splits if_splits)
  show ?thesis
  proof (cases "2 \<le> length r0 \<and> commaOrPeriod (r0 ! 0) \<and> isDigit r0 1")
    case True
    with assms stdZeroSecond g n
    have "st' = st\<lparr>p_sec := n, p_nsec := parseNanoseconds r0 (2 + length (takeWhile is_digit (drop 2 r0)))\<rparr>"
      by (simp add: Let_def)
    then show ?thesis by simp
  next
    case False
    with assms stdZeroSecond g n have "st' = st\<lparr>p_sec := n\<rparr>" by auto
    then show ?thesis by simp
  qed
qed (use assms in \<open>auto split: option.splits if_splits\<close>)

lemma parse_chunks_valid:
  "parse_chunks cs st v = Some st' \<Longrightarrow> pvalid st \<Longrightarrow> pvalid st'"
proof (induction cs st v rule: parse_chunks.induct)
  case (1 st v)
  then show ?case by (simp split: if_splits)
next
  case (2 p cs st v)
  then show ?case by (auto split: option.splits)
next
  case (3 sd cs st v)
  then show ?case by (auto split: option.splits dest: parse_std_valid)
qed

lemma parse_chunks_year:
  "parse_chunks cs st v = Some st' \<Longrightarrow> Std stdLongYear \<notin> set cs \<Longrightarrow> p_year st' = p_year st"
proof (induction cs st v rule: parse_chunks.induct)
  case (1 st v)
  then show ?case by (simp split: if_splits)
next
  case (2 p cs st v)
  then show ?case by (auto split: option.splits)
next
  case (3 sd cs st v)
  then show ?case by (auto split: option.splits dest: parse_std_year)
qed

lemma norm_day_id: "1 \<le> d \<Longrightarrow> d \<le> daysIn m y \<Longrightarrow> norm_day y m d = (y, m, d)"
  by (subst norm_day.simps) simp

lemma small_div_mod: "0 \<le> (a::int) \<Longrightarrow> a < b \<Longrightarrow> a div b = 0 \<and> a mod b = a"
  by simp

lemma Date_valid:
  assumes "1 \<le> mo" "mo \<le> 12" "1 \<le> d" "d \<le> daysIn mo y" "0 \<le> h" "h < 24"
    "0 \<le> mi" "mi < 60" "0 \<le> s" "s < 60" "0 \<le> ns" "ns < 1000000000"
  shows "Date y mo d h mi s ns off =
     \<lparr>Year = y, Month = mo, Day = d, Hour = h, Minute = mi, Second = s,
      Nanosecond = ns, Offset = off\<rparr>"
proof -
  have a: "(mo - 1) div 12 = 0 \<and> (mo - 1) mod 12 = mo - 1"
    using assms(1,2) by (intro small_div_mod) simp_all
  note b = small_div_mod [OF assms(11,12)]
  note c = small_div_mod [OF assms(9,10)]
  note e = small_div_mod [OF assms(7,8)]
  note f = small_div_mod [OF assms(5,6)]
  have "Date y mo d h mi s ns off =
      (case norm_day y mo d of
           (y2, m2, d2) \<Rightarrow>
             \<lparr>Year = y2, Month = m2, Day = d2, Hour = h, Minute = mi, Second = s,
              Nanosecond = ns, Offset = off\<rparr>)"
    unfolding Date_def Let_def using a b c e f by simp
  then show ?thesis
    by (simp add: norm_day_id [OF assms(3,4)])
qed

lemma Parse_fields:
  assumes "Parse layout v = Some t"
  shows "\<exists>st. parse_chunks (chunks layout) pstate0 v = Some st
            \<and> Year t = p_year st \<and> valid_Time t"
proof -
  from assms obtain st where st: "parse_chunks (chunks layout) pstate0 v = Some st"
    by (auto simp: Parse_def split: option.splits)
  define month where "month = (if p_month st < 0 then 1 else p_month st)"
  define day where "day = (if p_day st < 0 then 1 else p_day st)"
  have "pvalid pstate0" by (simp add: pvalid_def pstate0_def)
  with st have v: "pvalid st" by (rule parse_chunks_valid)
  then have m: "1 \<le> month" "month \<le> 12" by (auto simp: pvalid_def month_def)
  from assms st have d: "1 \<le> day" "day \<le> daysIn month (p_year st)"
    and t: "t = Date (p_year st) month day (p_hour st) (p_min st) (p_sec st) (p_nsec st)
                  (case p_zone st of None \<Rightarrow> 0 | Some z \<Rightarrow> z)"
    by (auto simp: Parse_def Let_def month_def day_def split: if_splits)
  from v have "0 \<le> p_hour st" "p_hour st < 24" "0 \<le> p_min st" "p_min st < 60"
    "0 \<le> p_sec st" "p_sec st < 60" "0 \<le> p_nsec st" "p_nsec st < 1000000000"
    by (simp_all add: pvalid_def)
  from Date_valid [OF m d this] t m d this st show ?thesis
    by (simp add: valid_Time_def)
qed

lemma Parse_without_year:
  assumes "Parse layout v = Some t" "Std stdLongYear \<notin> set (chunks layout)"
  shows "Year t = 0 \<and> valid_Time t"
proof -
  from Parse_fields [OF assms(1)] obtain st
    where st: "parse_chunks (chunks layout) pstate0 v = Some st" "Year t = p_year st" "valid_Time t"
    by blast
  from parse_chunks_year [OF st(1) assms(2)] st show ?thesis
    by (simp add: pstate0_def)
qed

lemma AddDate_years:
  assumes "valid_Time t" "Day t \<le> daysIn (Month t) (Year t + years)"
  shows "AddDate t years 0 0 = t\<lparr>Year := Year t + years\<rparr>"
proof -
  from assms(1) have v: "1 \<le> Month t" "Month t \<le> 12" "1 \<le> Day t"
    and c: "0 \<le> Hour t" "Hour t < 24" "0 \<le> Minute t" "Minute t < 60"
      "0 \<le> Second t" "Second t < 60" "0 \<le> Nanosecond t" "Nanosecond t < 1000000000"
    by (simp_all add: valid_Time_def)
  from Date_valid [OF v(1,2,3) assms(2) c, of "Offset t"] show ?thesis
    by (simp add: AddDate_def)
qed

lemma syslog_layout_chunks: "Std stdLongYear \<notin> set (chunks ''Jan 2 15:04:05'')"
  by code_simp

text \<open>
  C5, as the code has it. On a syslog match whose first group parses, the timestamp is
  the parsed time, which is in year 0, moved by \<open>AddDate\<close> by as many years as the
  current year counts; the source is group 2, the message group 4 and the level is
  inferred from the message. Whenever the day exists in the current year, the result is
  the parsed time with its year field set to the current year.
\<close>

theorem syslog_timestamp_year:
  assumes "length matches \<ge> 5" "Parse ''Jan 2 15:04:05'' (matches ! 1) = Some t"
  shows "parseWithPattern rt line ''syslog'' matches =
           Some \<lparr>Timestamp = AddDate t (now_Year rt) 0 0, Level = inferLogLevel rt (matches ! 4),
                 Message = matches ! 4, Source = matches ! 2, Raw = line\<rparr>
       \<and> Year t = 0
       \<and> (Day t \<le> daysIn (Month t) (now_Year rt)
            \<longrightarrow> AddDate t (now_Year rt) 0 0 = t\<lparr>Year := now_Year rt\<rparr>)"
proof -
  from Parse_without_year [OF assms(2) syslog_layout_chunks]
  have y: "Year t = 0" and v: "valid_Time t" by simp_all
  have p: "parseWithPattern rt line ''syslog'' matches =
           Some \<lparr>Timestamp = AddDate t (now_Year rt) 0 0, Level = inferLogLevel rt (matches ! 4),
                 Message = matches ! 4, Source = matches ! 2, Raw = line\<rparr>"
    using assms by (simp add: parseWithPattern_def entry_Raw_def)
  from AddDate_years [OF v, of "now_Year rt"] y p show ?thesis by simp
qed

theorem syslog_timestamp_year_witness:
  "5 \<le> length syslog_matches
   \<and> Parse ''Jan 2 15:04:05'' (syslog_matches ! 1) = Some (jan_5 0)
   \<and> Day (jan_5 0) \<le> daysIn (Month (jan_5 0)) (now_Year sample_rt)
   \<and> parseWithPattern sample_rt syslog_line ''syslog'' syslog_matches =
       Some \<lparr>Timestamp = jan_5 2024, Level = ''ERROR'', Message = ''error: bad thing'',
             Source = ''myhost'', Raw = syslog_line\<rparr>"
proof -
  have a: "5 \<le> length syslog_matches" by (simp add: syslog_matches_def)
  have b: "Parse ''Jan 2 15:04:05'' (syslog_matches ! 1) = Some (jan_5 0)" by code_simp
  have c: "Day (jan_5 0) \<le> daysIn (Month (jan_5 0)) (now_Year sample_rt)" by code_simp
  have d: "inferLogLevel sample_rt ''error: bad thing'' = ''ERROR''" by code_simp
  have e: "(jan_5 0)\<lparr>Year := now_Year sample_rt\<rparr> = jan_5 2024"
    by (simp add: jan_5_def sample_rt_def)
  have f: "syslog_matches ! 4 = ''error: bad thing''" "syslog_matches ! 2 = ''myhost''"
    by (simp_all add: syslog_matches_def)
  from syslog_timestamp_year [OF a b, of sample_rt syslog_line] c
  have "parseWithPattern sample_rt syslog_line ''syslog'' syslog_matches =
          Some \<lparr>Timestamp = (jan_5 0)\<lparr>Year := now_Year sample_rt\<rparr>,
                Level = inferLogLevel sample_rt (syslog_matches ! 4),
                Message = syslog_matches ! 4, Source = syslog_matches ! 2, Raw = syslog_line\<rparr>"
    by simp
  with a b c show ?thesis by (simp only: d e f simp_thms)
qed

text \<open>
  C5 as stated fails: the timestamp of a syslog line is a time whose year field is the
  current year.
\<close>

theorem syslog_year_counterexample:
  "FindStringSubmatch generic_re syslog_line = None
   \<and> FindStringSubmatch syslog_re syslog_line = Some syslog_matches
   \<and> now_Year sample_rt = 2024
   \<and> parseLine NewLogAnalyzer sample_rt syslog_line ''auto'' =
       Some \<lparr>Timestamp = \<lparr>Year = 2024, Month = 1, Day = 5, Hour = 10, Minute = 0, Second = 0,
                          Nanosecond = 0, Offset = 0\<rparr>,
             Level = ''ERROR'', Message = ''error: bad thing'', Source = ''myhost'',
             Raw = syslog_line\<rparr>"
proof -
  have a: "FindStringSubmatch generic_re syslog_line = None" by code_simp
  have b: "FindStringSubmatch syslog_re syslog_line = Some syslog_matches" by code_simp
  have c: "now_Year sample_rt = 2024" by code_simp
  have d: "parseLine NewLogAnalyzer sample_rt syslog_line ''auto'' =
       Some \<lparr>Timestamp = \<lparr>Year = 2024, Month = 1, Day = 5, Hour = 10, Minute = 0, Second = 0,
                          Nanosecond = 0, Offset = 0\<rparr>,
             Level = ''ERROR'', Message = ''error: bad thing'', Source = ''myhost'',
             Raw = syslog_line\<rparr>" by code_simp
  from a b c d show ?thesis by blast
qed

section \<open>Statistics and the filters\<close>

text \<open>
  C2 does not hold of the code: with a level filter that keeps one entry of two, the
  statistics of the one-shot path still count both entries, since \<open>showStats\<close> reads
  the entries of the analyzer and not the filtered entries.
\<close>

theorem stats_ignore_filters:
  "filterEntries level_filtered sample_rt = [sample_entry ''ERROR'' ''boom'']
   \<and> main_oneshot level_filtered sample_rt True 0 0 = Report (showStats level_filtered)
   \<and> TotalLines (showStats level_filtered) = 2
   \<and> InfoCount (showStats level_filtered) = 1
   \<and> TotalLines (showStats (level_filtered\<lparr>entries := filterEntries level_filtered sample_rt\<rparr>)) = 1
   \<and> InfoCount (showStats (level_filtered\<lparr>entries := filterEntries level_filtered sample_rt\<rparr>)) = 0"
proof -
  have f: "filterEntries level_filtered sample_rt = [sample_entry ''ERROR'' ''boom'']" by code_simp
  have m: "main_oneshot level_filtered sample_rt True 0 0 = Report (showStats level_filtered)"
    by (simp add: main_oneshot_def)
  have t: "TotalLines (showStats level_filtered) = 2" by code_simp
  have i: "InfoCount (showStats level_filtered) = 1" by code_simp
  have t': "TotalLines (showStats (level_filtered\<lparr>entries := filterEntries level_filtered sample_rt\<rparr>)) = 1"
    by code_simp
  have i': "InfoCount (showStats (level_filtered\<lparr>entries := filterEntries level_filtered sample_rt\<rparr>)) = 0"
    by code_simp
  from f m t i t' i' show ?thesis by simp
qed

section \<open>The top of a frequency table\<close>

lemma printTop_loop_take:
  "printTop_loop ss limit i = take (nat (limit - i)) ss"
proof (induction ss arbitrary: i)
  case Nil
  then show ?case by simp
next
  case (Cons e ss)
  show ?case
  proof (cases "i \<ge> limit")
    case True
    then show ?thesis by simp
  next
    case False
    then have "nat (limit - i) = Suc (nat (limit - (i + 1)))" by simp
    with False Cons show ?thesis by simp
  qed
qed

lemma range_map_perm:
  assumes "range_map m ss" "mset ss' = mset ss"
  shows "range_map m ss'"
proof -
  from assms(2) have s: "set ss' = set ss" by (rule mset_eq_setD)
  from assms(2) have "mset (map Key ss') = mset (map Key ss)" by simp
  then have "distinct (map Key ss') = distinct (map Key ss)" by (rule mset_eq_imp_distinct_iff)
  with assms(1) s show ?thesis by (simp add: range_map_def list_all_iff)
qed

lemma sorted_by_count_stable:
  assumes "sorted_wrt (\<lambda>a b. \<not> Val b > Val a) ss"
  shows "sort_key (\<lambda>e. - Val e) ss = ss"
proof -
  have "sorted_wrt (\<lambda>a b. - Val a \<le> - Val b) ss"
    using assms by (rule sorted_wrt_mono_rel [rotated]) simp
  then have "sorted (map (\<lambda>e. - Val e) ss)" by (simp add: sorted_map)
  then show ?thesis by (rule sort_key_id_if_sorted)
qed

lemma printTopMap_stable:
  assumes "range_map m ss"
  shows "printTopMap m limit (take (nat limit) (sort_key (\<lambda>e. - Val e) ss))"
proof -
  let ?ys = "sort_key (\<lambda>e. - Val e) ss"
  have "sorted (map (\<lambda>e. - Val e) ?ys)" by (rule sorted_sort_key)
  then have "sorted_wrt (\<lambda>a b. - Val a \<le> - Val b) ?ys" by (simp add: sorted_map)
  then have "sorted_wrt (\<lambda>a b. \<not> Val b > Val a) ?ys"
    by (rule sorted_wrt_mono_rel [rotated]) simp
  then have "sort_Slice (\<lambda>a b. Val a > Val b) ss ?ys" by (simp add: sort_Slice_def)
  from printTopMapI [OF assms this, of limit] show ?thesis
    by (simp add: printTop_loop_take)
qed

lemma printTopMap_sorted:
  assumes "printTopMap m limit out"
  shows "\<exists>ss. range_map m ss \<and> sorted_wrt (\<lambda>a b. \<not> Val b > Val a) ss
              \<and> out = take (nat limit) ss"
  using assms
proof (cases rule: printTopMap.cases)
  case (printTopMapI ss ss')
  then have p: "mset ss' = mset ss" and s: "sorted_wrt (\<lambda>a b. \<not> Val b > Val a) ss'"
    by (simp_all add: sort_Slice_def)
  have "range_map m ss'" using printTopMapI(2) p by (rule range_map_perm)
  with s printTopMapI(1) show ?thesis by (auto simp: printTop_loop_take)
qed

text \<open>
  C8. The lines \<open>printTopMap\<close> can print with limit 5 are exactly the first five
  entries of the table sorted by count, highest first, by a stable sort that compares
  the counts only, over some order in which the map is enumerated; so there are at most
  five of them, in descending order of count, and the sort comes before the cut.
\<close>

theorem printTopMap_top5:
  "(printTopMap m 5 out
      \<longleftrightarrow> (\<exists>ss. range_map m ss \<and> out = take 5 (sort_key (\<lambda>e. - Val e) ss)))
   \<and> (printTopMap m 5 out
      \<longrightarrow> length out \<le> 5 \<and> sorted_wrt (\<lambda>a b. Val a \<ge> Val b) out)"
proof -
  have 1: "\<exists>ss. range_map m ss \<and> out = take 5 (sort_key (\<lambda>e. - Val e) ss)"
    and 2: "length out \<le> 5 \<and> sorted_wrt (\<lambda>a b. Val a \<ge> Val b) out"
    if "printTopMap m 5 out"
  proof -
    from printTopMap_sorted [OF that] obtain ss
      where r: "range_map m ss" and s: "sorted_wrt (\<lambda>a b. \<not> Val b > Val a) ss"
        and o: "out = take 5 ss"
      by auto
    from sorted_by_count_stable [OF s] r o
    show "\<exists>ss. range_map m ss \<and> out = take 5 (sort_key (\<lambda>e. - Val e) ss)" by auto
    from s have "sorted_wrt (\<lambda>a b. Val a \<ge> Val b) ss"
      by (rule sorted_wrt_mono_rel [rotated]) simp
    then have "sorted_wrt (\<lambda>a b. Val a \<ge> Val b) (take 5 ss)" by (rule sorted_wrt_take)
    with o show "length out \<le> 5 \<and> sorted_wrt (\<lambda>a b. Val a \<ge> Val b) out" by simp
  qed
  have 3: "printTopMap m 5 out"
    if "\<exists>ss. range_map m ss \<and> out = take 5 (sort_key (\<lambda>e. - Val e) ss)"
    using that printTopMap_stable [of m _ 5] by auto
  from 1 2 3 show ?thesis by blast
qed

theorem printTopMap_top5_witness:
  "printTopMap sample_table 5 sample_top \<and> length sample_top \<le> 5
   \<and> sorted_wrt (\<lambda>a b. Val a \<ge> Val b) sample_top"
proof -
  have r: "range_map sample_table sample_top"
    by (auto simp: range_map_def sample_table_def sample_top_def)
  have s: "sort_Slice (\<lambda>a b. Val a > Val b) sample_top sample_top"
    by (simp add: sort_Slice_def sample_top_def)
  have l: "printTop_loop sample_top 5 0 = sample_top" by (simp add: sample_top_def)
  have p: "printTopMap sample_table 5 sample_top"
    using printTopMapI [OF r s, of 5] by (simp only: l)
  from p printTopMap_top5 [of sample_table sample_top] show ?thesis by simp
qed

end
